theory Spec2Isabelle
  imports Main
begin

section \<open>Python exceptions raised by the modelled code\<close>

datatype error =
    AssertionError
  | AttributeError
  | ExtractionError
  | StoreError

section \<open>Window slicer (src/ingest/chunker.py, \<^verbatim>\<open>_char_windows\<close>)\<close>

text \<open>
  The \<^verbatim>\<open>while i < n\<close> loop of \<^verbatim>\<open>_char_windows\<close>; \<open>n\<close> is \<^verbatim>\<open>len(s)\<close>.
  Python integers are unbounded, hence \<open>int\<close>. The \<^verbatim>\<open>break\<close> is the inner
  \<open>if\<close>. The measure \<open>n - i\<close> decreases because the next start is at least \<open>i + 1\<close>.
\<close>

function char_windows_loop :: "int \<Rightarrow> int \<Rightarrow> int \<Rightarrow> int \<Rightarrow> (int \<times> int) list" where
  "char_windows_loop i n sz overlap =
     (if i < n then
        (let j = min (i + sz) n in
         (i, j) # (if j \<ge> n then []
                   else char_windows_loop (max (j - overlap) (i + 1)) n sz overlap))
      else [])"
  by pat_completeness auto
termination
  by (relation "measure (\<lambda>(i, n, sz, overlap). nat (n - i))") auto

text \<open>The \<^verbatim>\<open>assert size > 0 and 0 <= overlap < size\<close> is the error branch.\<close>

definition char_windows :: "string \<Rightarrow> int \<Rightarrow> int \<Rightarrow> error + (int \<times> int) list" where
  "char_windows s sz overlap =
     (if sz > 0 \<and> 0 \<le> overlap \<and> overlap < sz
      then Inr (char_windows_loop 0 (int (length s)) sz overlap)
      else Inl AssertionError)"

section \<open>Python strings\<close>

text \<open>
  A Python \<^verbatim>\<open>str\<close> is modelled as a \<open>string\<close>: the list of its code points, each below
  256. \<open>is_space\<close> is \<^verbatim>\<open>str.isspace\<close> on one such code point; the regular expression
  class \<^verbatim>\<open>\s\<close> of a \<^verbatim>\<open>str\<close> pattern matches the same characters.
\<close>

definition is_space :: "char \<Rightarrow> bool" where
  "is_space c =
     (let n = (of_char c :: nat)
      in (9 \<le> n \<and> n \<le> 13) \<or> (28 \<le> n \<and> n \<le> 32) \<or> n = 133 \<or> n = 160)"

text \<open>\<^verbatim>\<open>s.strip()\<close>\<close>

definition strip :: "string \<Rightarrow> string" where
  "strip s = rev (dropWhile is_space (rev (dropWhile is_space s)))"

text \<open>\<^verbatim>\<open>sep.join(xs)\<close>\<close>

fun join :: "string \<Rightarrow> string list \<Rightarrow> string" where
  "join sep [] = []"
| "join sep [x] = x"
| "join sep (x # y # ys) = x @ sep @ join sep (y # ys)"

abbreviation NL :: string where
  "NL \<equiv> [CHR 0x0A]"

text \<open>
  \<^verbatim>\<open>s.splitlines()\<close>: the line boundaries below 256 are LF, VT, FF, CR, FS, GS, RS and
  NEL; CR LF is one boundary; the boundaries are dropped; a text that ends with a
  boundary has no empty last line.
\<close>

definition is_linebreak :: "char \<Rightarrow> bool" where
  "is_linebreak c =
     (let n = (of_char c :: nat)
      in (10 \<le> n \<and> n \<le> 13) \<or> (28 \<le> n \<and> n \<le> 30) \<or> n = 133)"

fun splitlines_from :: "string \<Rightarrow> string \<Rightarrow> string list" where
  "splitlines_from cur [] = (if cur = [] then [] else [cur])"
| "splitlines_from cur [c] = (if is_linebreak c then [cur] else [cur @ [c]])"
| "splitlines_from cur (c # d # cs) =
     (if c = CHR 0x0D \<and> d = CHR 0x0A then cur # splitlines_from [] cs
      else if is_linebreak c then cur # splitlines_from [] (d # cs)
      else splitlines_from (cur @ [c]) (d # cs))"

definition splitlines :: "string \<Rightarrow> string list" where
  "splitlines s = splitlines_from [] s"

text \<open>\<^verbatim>\<open>s[a:b]\<close> with Python's treatment of negative and out-of-range bounds.\<close>

definition slice_bound :: "nat \<Rightarrow> int \<Rightarrow> nat" where
  "slice_bound n k = nat (if k < 0 then max (k + int n) 0 else min k (int n))"

definition py_slice :: "'a list \<Rightarrow> int \<Rightarrow> int \<Rightarrow> 'a list" where
  "py_slice s a b = drop (slice_bound (length s) a) (take (slice_bound (length s) b) s)"

text \<open>\<^verbatim>\<open>str(n)\<close> for a non-negative integer.\<close>

definition digit_char :: "nat \<Rightarrow> char" where
  "digit_char d = ''0123456789'' ! d"

function str_nat :: "nat \<Rightarrow> string" where
  "str_nat n = (if n < 10 then [digit_char n] else str_nat (n div 10) @ [digit_char (n mod 10)])"
  by pat_completeness auto
termination
  by (relation "measure id") auto

text \<open>
  \<^verbatim>\<open>s.encode("utf-8")\<close> for code points below 256: one byte below 128, two bytes from
  128 on.
\<close>

definition utf8_char :: "char \<Rightarrow> nat list" where
  "utf8_char c =
     (let n = (of_char c :: nat)
      in if n < 128 then [n] else [192 + n div 64, 128 + n mod 64])"

definition utf8_encode :: "string \<Rightarrow> nat list" where
  "utf8_encode s = concat (map utf8_char s)"

section \<open>Identity scheme (src/ingest/chunker.py, \<^verbatim>\<open>_hash_id\<close>)\<close>

text \<open>
  \<^verbatim>\<open>hashlib.sha1(...).hexdigest()\<close>: SHA-1 as in FIPS 180, on bytes and 32-bit words
  written as natural numbers with the reduction modulo \<open>2^32\<close> spelled out.
\<close>

unbundle bit_operations_syntax

definition add32 :: "nat \<Rightarrow> nat \<Rightarrow> nat" where
  "add32 a b = (a + b) mod 4294967296"

definition rotl :: "nat \<Rightarrow> nat \<Rightarrow> nat" where
  "rotl n x = (x * 2 ^ n) mod 4294967296 + x div 2 ^ (32 - n)"

fun be_words :: "nat list \<Rightarrow> nat list" where
  "be_words (a # b # c # d # rest) = (16777216 * a + 65536 * b + 256 * c + d) # be_words rest"
| "be_words _ = []"

definition be_bytes8 :: "nat \<Rightarrow> nat list" where
  "be_bytes8 v = map (\<lambda>k. (v div 2 ^ k) mod 256) [56, 48, 40, 32, 24, 16, 8, 0]"

definition sha1_pad :: "nat list \<Rightarrow> nat list" where
  "sha1_pad m = m @ [128] @ replicate ((119 - length m mod 64) mod 64) 0 @ be_bytes8 (8 * length m)"

definition sha1_f :: "nat \<Rightarrow> nat \<Rightarrow> nat \<Rightarrow> nat \<Rightarrow> nat" where
  "sha1_f t b c d =
     (if t < 20 then (b AND c) OR ((4294967295 - b) AND d)
      else if t < 40 then b XOR c XOR d
      else if t < 60 then (b AND c) OR (b AND d) OR (c AND d)
      else b XOR c XOR d)"

definition sha1_k :: "nat \<Rightarrow> nat" where
  "sha1_k t = (if t < 20 then 0x5A827999 else if t < 40 then 0x6ED9EBA1
               else if t < 60 then 0x8F1BBCDC else 0xCA62C1D6)"

text \<open>The message schedule; \<open>rs\<close> holds the words so far, the newest first.\<close>

fun sha1_schedule :: "nat \<Rightarrow> nat list \<Rightarrow> nat list" where
  "sha1_schedule 0 rs = rev rs"
| "sha1_schedule (Suc k) rs =
     sha1_schedule k (rotl 1 (rs ! 2 XOR rs ! 7 XOR rs ! 13 XOR rs ! 15) # rs)"

type_synonym sha1_state = "nat \<times> nat \<times> nat \<times> nat \<times> nat"

fun sha1_rounds :: "nat \<Rightarrow> nat list \<Rightarrow> sha1_state \<Rightarrow> sha1_state" where
  "sha1_rounds t [] st = st"
| "sha1_rounds t (w # ws) (a, b, c, d, e) =
     sha1_rounds (t + 1) ws
       (add32 (add32 (add32 (add32 (rotl 5 a) (sha1_f t b c d)) e) (sha1_k t)) w, a, rotl 30 b, c, d)"

fun sha1_block :: "sha1_state \<Rightarrow> nat list \<Rightarrow> sha1_state" where
  "sha1_block (h0, h1, h2, h3, h4) block =
     (case sha1_rounds 0 (sha1_schedule 64 (rev (be_words block))) (h0, h1, h2, h3, h4) of
        (a, b, c, d, e) \<Rightarrow> (add32 h0 a, add32 h1 b, add32 h2 c, add32 h3 d, add32 h4 e))"

function sha1_blocks :: "sha1_state \<Rightarrow> nat list \<Rightarrow> sha1_state" where
  "sha1_blocks st m = (if m = [] then st else sha1_blocks (sha1_block st (take 64 m)) (drop 64 m))"
  by pat_completeness auto
termination
  by (relation "measure (\<lambda>(st, m). length m)") auto

definition hex_digit :: "nat \<Rightarrow> char" where
  "hex_digit n = (''0123456789abcdef'' ! n)"

definition hex_word :: "nat \<Rightarrow> string" where
  "hex_word w = map (\<lambda>k. hex_digit ((w div 2 ^ k) mod 16)) [28, 24, 20, 16, 12, 8, 4, 0]"

definition sha1_hex :: "nat list \<Rightarrow> string" where
  "sha1_hex m =
     (case sha1_blocks (0x67452301, 0xEFCDAB89, 0x98BADCFE, 0x10325476, 0xC3D2E1F0) (sha1_pad m) of
        (h0, h1, h2, h3, h4) \<Rightarrow> concat (map hex_word [h0, h1, h2, h3, h4]))"

definition hash_id :: "string list \<Rightarrow> int \<Rightarrow> string" where
  "hash_id parts n = py_slice (sha1_hex (utf8_encode (join ''::'' parts))) 0 n"

section \<open>Section splitter (src/ingest/chunker.py, \<^verbatim>\<open>_split_sections\<close>)\<close>

text \<open>
  \<^verbatim>\<open>H_RE.match(ln)\<close> for \<^verbatim>\<open>^(#{1,6})\s+(.*)$\<close>: one to six \<^verbatim>\<open>#\<close>, then at least one
  white-space character; a seventh \<^verbatim>\<open>#\<close> or any other character after the hashes makes
  the match fail. The result is the length of group 1 and group 2: after all the white
  space, the characters up to the next line feed.
\<close>

definition h_re_match :: "string \<Rightarrow> (nat \<times> string) option" where
  "h_re_match ln =
     (let k = length (takeWhile (\<lambda>c. c = CHR ''#'') ln); rest = drop k ln
      in if 1 \<le> k \<and> k \<le> 6 \<and> rest \<noteq> [] \<and> is_space (hd rest)
         then Some (k, takeWhile (\<lambda>c. c \<noteq> CHR 0x0A) (dropWhile is_space rest))
         else None)"

text \<open>\<^verbatim>\<open>" > ".join([p for p in path if p]) or "(root)"\<close>\<close>

definition section_path_of :: "string list \<Rightarrow> string" where
  "section_path_of path =
     (let p = join '' > '' (filter (\<lambda>p. p \<noteq> []) path) in if p = [] then ''(root)'' else p)"

text \<open>The closure \<^verbatim>\<open>flush\<close>: it reads \<^verbatim>\<open>path\<close> and \<^verbatim>\<open>buf\<close> and appends to \<^verbatim>\<open>sections\<close>.\<close>

definition flush :: "string list \<Rightarrow> string list \<Rightarrow> (string \<times> string) list \<Rightarrow> (string \<times> string) list" where
  "flush path buf sections =
     (if buf \<noteq> [] then sections @ [(section_path_of path, strip (join NL buf) @ NL)]
      else sections)"

fun split_sections_loop ::
  "string list \<Rightarrow> (string \<times> string) list \<Rightarrow> string list \<Rightarrow> string list \<Rightarrow> (string \<times> string) list" where
  "split_sections_loop [] sections path buf = flush path buf sections"
| "split_sections_loop (ln # lines) sections path buf =
     (case h_re_match ln of
        Some (level, title) \<Rightarrow>
          split_sections_loop lines (flush path buf sections)
            (take (level - 1) path @ [strip title]) [ln]
      | None \<Rightarrow> split_sections_loop lines sections path (buf @ [ln]))"

definition split_sections :: "string \<Rightarrow> (string \<times> string) list" where
  "split_sections md = split_sections_loop (splitlines md) [] [] []"

section \<open>Title and source URL (src/ingest/chunker.py, \<^verbatim>\<open>_title_url\<close>)\<close>

text \<open>
  \<^verbatim>\<open>re.search\<close> of a pattern that starts with \<^verbatim>\<open>^\<close> under \<^verbatim>\<open>re.MULTILINE\<close>: the
  pattern is tried, left to right, at the start of the text and after every line feed.
\<close>

fun re_search_from :: "(string \<Rightarrow> 'a option) \<Rightarrow> bool \<Rightarrow> string \<Rightarrow> 'a option" where
  "re_search_from f bol [] = None"
| "re_search_from f bol (c # cs) =
     (case (if bol then f (c # cs) else None) of
        Some r \<Rightarrow> Some r
      | None \<Rightarrow> re_search_from f (c = CHR 0x0A) cs)"

text \<open>\<^verbatim>\<open>TITLE_RE\<close> is \<^verbatim>\<open>^#\s+(.*)$\<close>; the result is group 1.\<close>

definition title_re_at :: "string \<Rightarrow> string option" where
  "title_re_at s =
     (case s of
        [] \<Rightarrow> None
      | c # rest \<Rightarrow>
          if c = CHR ''#'' \<and> rest \<noteq> [] \<and> is_space (hd rest)
          then Some (takeWhile (\<lambda>c. c \<noteq> CHR 0x0A) (dropWhile is_space rest))
          else None)"

text \<open>Matching under \<^verbatim>\<open>re.IGNORECASE\<close> against a pattern of ASCII characters.\<close>

definition ascii_lower :: "char \<Rightarrow> char" where
  "ascii_lower c =
     (case map_of (zip ''ABCDEFGHIJKLMNOPQRSTUVWXYZ'' ''abcdefghijklmnopqrstuvwxyz'') c of
        Some l \<Rightarrow> l
      | None \<Rightarrow> c)"

fun match_ci :: "string \<Rightarrow> string \<Rightarrow> string option" where
  "match_ci [] s = Some s"
| "match_ci (p # ps) [] = None"
| "match_ci (p # ps) (c # cs) =
     (if ascii_lower c = ascii_lower p then match_ci ps cs else None)"

text \<open>\<^verbatim>\<open>SOURCE_RE\<close> is \<^verbatim>\<open>^>\s*Source:\s*(\S+)\<close>, ignoring case; the result is group 1.\<close>

definition source_re_at :: "string \<Rightarrow> string option" where
  "source_re_at s =
     (case s of
        [] \<Rightarrow> None
      | c # rest \<Rightarrow>
          if c = CHR ''>'' then
            (case match_ci ''Source:'' (dropWhile is_space rest) of
               None \<Rightarrow> None
             | Some r \<Rightarrow>
                 (let g = takeWhile (\<lambda>c. \<not> is_space c) (dropWhile is_space r)
                  in if g = [] then None else Some g))
          else None)"

definition title_url :: "string \<Rightarrow> string option \<times> string option" where
  "title_url md =
     (map_option strip (re_search_from title_re_at True md),
      map_option strip (re_search_from source_re_at True md))"

section \<open>Chunker (src/ingest/chunker.py, \<^verbatim>\<open>SectionChunker\<close>)\<close>

record chunk =
  chunk_id :: string
  doc_id :: string
  chunk_text :: string
  source_file :: string
  section_path :: string

record section_chunker =
  size_chars :: int
  over :: int
  max_h :: int

text \<open>The constructor, with its two assertions.\<close>

definition new_section_chunker :: "int \<Rightarrow> int \<Rightarrow> int \<Rightarrow> error + section_chunker" where
  "new_section_chunker chunk_chars overlap_chars max_header_level =
     (if \<not> (1 \<le> max_header_level \<and> max_header_level \<le> 6) then Inl AssertionError
      else if \<not> (0 \<le> overlap_chars \<and> overlap_chars < chunk_chars) then Inl AssertionError
      else Inr \<lparr>size_chars = chunk_chars, over = overlap_chars, max_h = max_header_level\<rparr>)"

text \<open>
  The inner loop of \<^verbatim>\<open>chunk_markdown_text\<close> over the windows of one section; the state
  is the list \<^verbatim>\<open>chunks\<close> and the counter \<^verbatim>\<open>idx\<close>.
\<close>

fun chunk_windows ::
  "string \<Rightarrow> string \<Rightarrow> string \<Rightarrow> string \<Rightarrow> (int \<times> int) list \<Rightarrow> chunk list \<times> nat \<Rightarrow> chunk list \<times> nat" where
  "chunk_windows did src sec_path sec_text [] (chunks, idx) = (chunks, idx)"
| "chunk_windows did src sec_path sec_text ((ws, we) # rest) (chunks, idx) =
     (let piece = strip (py_slice sec_text ws we)
      in if piece = [] then chunk_windows did src sec_path sec_text rest (chunks, idx)
         else chunk_windows did src sec_path sec_text rest
                (chunks @ [\<lparr>chunk_id = hash_id [did, sec_path, str_nat idx] 16,
                             doc_id = did,
                             chunk_text = piece,
                             source_file = src,
                             section_path = sec_path\<rparr>],
                 idx + 1))"

text \<open>The outer loop over the sections; a failed assertion of the slicer ends it.\<close>

fun chunk_sections ::
  "section_chunker \<Rightarrow> string \<Rightarrow> string \<Rightarrow> (string \<times> string) list \<Rightarrow> chunk list \<times> nat \<Rightarrow> error + chunk list" where
  "chunk_sections self did src [] (chunks, idx) = Inr chunks"
| "chunk_sections self did src ((sec_path, sec_text) # rest) (chunks, idx) =
     (case char_windows sec_text (size_chars self) (over self) of
        Inl e \<Rightarrow> Inl e
      | Inr wins \<Rightarrow>
          chunk_sections self did src rest
            (chunk_windows did src sec_path sec_text wins (chunks, idx)))"

text \<open>\<^verbatim>\<open>doc_key = url or source_file\<close>: the URL unless it is \<^verbatim>\<open>None\<close> or empty.\<close>

definition doc_key_of :: "string \<Rightarrow> string \<Rightarrow> string" where
  "doc_key_of md_text src =
     (case snd (title_url md_text) of
        None \<Rightarrow> src
      | Some url \<Rightarrow> if url = [] then src else url)"

definition chunk_markdown_text :: "section_chunker \<Rightarrow> string \<Rightarrow> string \<Rightarrow> error + chunk list" where
  "chunk_markdown_text self md_text src =
     (let did = hash_id [doc_key_of md_text src] 16;
          sections = split_sections md_text
      in chunk_sections self did src sections ([], 0))"

text \<open>The chunk the loop body appends for index \<open>i\<close>, section path \<open>p\<close> and text \<open>piece\<close>.\<close>

definition mk_chunk :: "string \<Rightarrow> string \<Rightarrow> nat \<times> string \<times> string \<Rightarrow> chunk" where
  "mk_chunk did src = (\<lambda>(i, p, piece).
     \<lparr>chunk_id = hash_id [did, p, str_nat i] 16, doc_id = did, chunk_text = piece,
      source_file = src, section_path = p\<rparr>)"

text \<open>
  The chunk sequence in the specification's words, to be compared with the loops above:
  the windows of every section, in document order, each slice trimmed
  (\<open>section_pieces\<close>), and the slices that are empty after trimming left out
  (\<open>emitted_pieces\<close>); a chunk's index is its position in that last list.
\<close>

definition section_pieces :: "section_chunker \<Rightarrow> string \<times> string \<Rightarrow> (string \<times> string) list" where
  "section_pieces self = (\<lambda>(p, t).
     map (\<lambda>(ws, we). (p, strip (py_slice t ws we)))
       (char_windows_loop 0 (int (length t)) (size_chars self) (over self)))"

definition emitted_pieces :: "section_chunker \<Rightarrow> string \<Rightarrow> (string \<times> string) list" where
  "emitted_pieces self md =
     filter (\<lambda>(p, piece). piece \<noteq> []) (concat (map (section_pieces self) (split_sections md)))"

section \<open>JSON values and the extractor response (src/ingest/extract_graph.py)\<close>

text \<open>
  The Python values that \<^verbatim>\<open>json.loads\<close> returns. \<open>JNull\<close> is \<^verbatim>\<open>None\<close>; a \<^verbatim>\<open>dict\<close> is an
  association list read with \<open>map_of\<close>. A float is kept as mantissa and binary exponent,
  or as one of the three special values that \<^verbatim>\<open>json.loads\<close> accepts.
\<close>

datatype py_float = Finite int int | PosInfinity | NegInfinity | NaN

datatype json =
    JNull
  | JBool bool
  | JInt int
  | JFloat py_float
  | JString string
  | JArray "json list"
  | JObject "(string \<times> json) list"

text \<open>Truth value of a Python value, as \<^verbatim>\<open>if v\<close> and \<^verbatim>\<open>v or d\<close> test it.\<close>

fun truthy :: "json \<Rightarrow> bool" where
  "truthy JNull = False"
| "truthy (JBool b) = b"
| "truthy (JInt i) = (i \<noteq> 0)"
| "truthy (JFloat f) = (case f of Finite m e \<Rightarrow> m \<noteq> 0 | _ \<Rightarrow> True)"
| "truthy (JString s) = (s \<noteq> [])"
| "truthy (JArray xs) = (xs \<noteq> [])"
| "truthy (JObject kvs) = (kvs \<noteq> [])"

text \<open>
  \<^verbatim>\<open>v.get(key, default)\<close>: only a \<^verbatim>\<open>dict\<close> has the method, every other JSON value raises
  \<^verbatim>\<open>AttributeError\<close>. \<^verbatim>\<open>v.get(key)\<close> is the call with the default \<^verbatim>\<open>None\<close>.
\<close>

definition py_get :: "json \<Rightarrow> string \<Rightarrow> json \<Rightarrow> error + json" where
  "py_get v key dflt =
     (case v of
        JObject kvs \<Rightarrow> Inr (case map_of kvs key of Some x \<Rightarrow> x | None \<Rightarrow> dflt)
      | _ \<Rightarrow> Inl AttributeError)"

text \<open>\<^verbatim>\<open>s.find(c)\<close> and \<^verbatim>\<open>s.rfind(c)\<close> for a single character.\<close>

definition py_find :: "char \<Rightarrow> string \<Rightarrow> int" where
  "py_find c s = (if c \<in> set s then int (length (takeWhile (\<lambda>x. x \<noteq> c) s)) else - 1)"

definition py_rfind :: "char \<Rightarrow> string \<Rightarrow> int" where
  "py_rfind c s =
     (if c \<in> set s then int (length s) - 1 - int (length (takeWhile (\<lambda>x. x \<noteq> c) (rev s)))
      else - 1)"

definition extract_json_block :: "string \<Rightarrow> string" where
  "extract_json_block text0 =
     (let start = py_find (CHR ''{'') text0; stop = py_rfind (CHR ''}'') text0
      in if start = - 1 \<or> stop = - 1 \<or> stop \<le> start then strip text0
         else py_slice text0 start (stop + 1))"

record kg =
  entities :: "json list"
  relations :: "json list"

definition empty_kg :: kg where
  "empty_kg = \<lparr>entities = [], relations = []\<rparr>"

text \<open>
  Lines 146 to 153 of \<^verbatim>\<open>extract_kg_from_chunk\<close>: the two \<^verbatim>\<open>parsed.get\<close> calls and the
  \<^verbatim>\<open>isinstance(..., list)\<close> tests.
\<close>

definition kg_of_parsed :: "json \<Rightarrow> error + kg" where
  "kg_of_parsed parsed =
     (case py_get parsed ''entities'' (JArray []) of
        Inl e \<Rightarrow> Inl e
      | Inr ents \<Rightarrow>
          (case py_get parsed ''relations'' (JArray []) of
             Inl e \<Rightarrow> Inl e
           | Inr rels \<Rightarrow>
               Inr \<lparr>entities = (case ents of JArray xs \<Rightarrow> xs | _ \<Rightarrow> []),
                    relations = (case rels of JArray xs \<Rightarrow> xs | _ \<Rightarrow> [])\<rparr>))"

text \<open>
  Lines 135 to 153: parsing the message content. \<open>loads\<close> is \<^verbatim>\<open>json.loads\<close>, with
  \<open>None\<close> for \<^verbatim>\<open>json.JSONDecodeError\<close>; only that exception is caught.
\<close>

definition parse_content :: "(string \<Rightarrow> json option) \<Rightarrow> string \<Rightarrow> error + kg" where
  "parse_content loads content0 =
     (let content = strip content0
      in case loads content of
           Some parsed \<Rightarrow> kg_of_parsed parsed
         | None \<Rightarrow>
             (case loads (extract_json_block content) of
                Some parsed \<Rightarrow> kg_of_parsed parsed
              | None \<Rightarrow> Inr empty_kg))"

text \<open>
  \<^verbatim>\<open>extract_kg_from_chunk\<close>. \<open>create\<close> is the chat completion request for a chunk text
  (the prompt is a fixed template around the text): it raises, or returns the message
  content, which may be \<^verbatim>\<open>None\<close>; then \<^verbatim>\<open>.strip()\<close> raises \<^verbatim>\<open>AttributeError\<close>.
\<close>

definition extract_kg_from_chunk ::
  "(string \<Rightarrow> error + string option) \<Rightarrow> (string \<Rightarrow> json option) \<Rightarrow> string \<Rightarrow> error + kg" where
  "extract_kg_from_chunk create loads chunk_text0 =
     (case create chunk_text0 of
        Inl e \<Rightarrow> Inl e
      | Inr None \<Rightarrow> Inl AttributeError
      | Inr (Some content) \<Rightarrow> parse_content loads content)"

section \<open>Extraction dispatch (src/ingest/ingest_pipeline.py, lines 86 to 98)\<close>

text \<open>
  A finished future is the outcome of its call; the dictionary \<^verbatim>\<open>futures\<close> pairs it with
  the index it was submitted under. The call submitted under index \<open>idx\<close> uses the
  completion request \<open>create idx\<close>, so that two calls on equal texts may end differently.
\<close>

definition submit_all ::
  "(nat \<Rightarrow> string \<Rightarrow> error + string option) \<Rightarrow> (string \<Rightarrow> json option) \<Rightarrow> chunk list
     \<Rightarrow> ((error + kg) \<times> nat) list" where
  "submit_all create loads chunk_batch =
     map (\<lambda>(idx, chunk). (extract_kg_from_chunk (create idx) loads (chunk_text chunk), idx))
       (enumerate 0 chunk_batch)"

text \<open>
  The loop over \<^verbatim>\<open>as_completed(futures)\<close>, given the futures in the order in which they
  complete. \<^verbatim>\<open>except Exception\<close> catches every outcome that is an exception.
\<close>

fun collect_results :: "((error + kg) \<times> nat) list \<Rightarrow> kg option list \<Rightarrow> kg option list" where
  "collect_results [] kg_list = kg_list"
| "collect_results ((outcome, idx) # rest) kg_list =
     collect_results rest
       (kg_list[idx := Some (case outcome of Inr r \<Rightarrow> r | Inl e \<Rightarrow> empty_kg)])"

text \<open>
  \<open>order\<close> lists the positions of the futures in their order of completion; every
  future completes once, so it is a permutation of the positions.
\<close>

definition dispatch ::
  "(nat \<Rightarrow> string \<Rightarrow> error + string option) \<Rightarrow> (string \<Rightarrow> json option) \<Rightarrow> nat list
     \<Rightarrow> chunk list \<Rightarrow> kg option list" where
  "dispatch create loads order chunk_batch =
     (let futures = submit_all create loads chunk_batch;
          kg_list = replicate (length chunk_batch) None
      in collect_results (map (\<lambda>p. futures ! p) order) kg_list)"

section \<open>Store writes (src/ingest/create_graph.py, create_index.py, ingest_pipeline.py)\<close>

text \<open>
  One \<^verbatim>\<open>tx.run\<close> of \<^verbatim>\<open>upsert_entities\<close> (id, name, type, description, extra_json,
  source_file, section_path, doc_id) or of \<^verbatim>\<open>upsert_relations\<close> (subject, predicate,
  object, description, source_file).
\<close>

datatype tx_run =
    EntityRun json json json json string string string string
  | RelationRun json json json json string

text \<open>
  The transaction functions, as the list of their \<^verbatim>\<open>tx.run\<close> calls. \<open>dumps\<close> is
  \<^verbatim>\<open>json.dumps\<close>. An element that is not a \<^verbatim>\<open>dict\<close> raises \<^verbatim>\<open>AttributeError\<close> at its
  first \<^verbatim>\<open>.get\<close>; the exception leaves the transaction function, so the transaction
  is not committed and none of its calls is a write.
\<close>

fun upsert_entities ::
  "(json \<Rightarrow> string) \<Rightarrow> json list \<Rightarrow> string \<Rightarrow> string \<Rightarrow> string \<Rightarrow> error + tx_run list" where
  "upsert_entities dumps [] src sp did = Inr []"
| "upsert_entities dumps (ent # rest) src sp did =
     (case py_get ent ''extra'' JNull of
        Inl e \<Rightarrow> Inl e
      | Inr extra \<Rightarrow>
          (let extra_dict = (if truthy extra then extra else JObject []);
               extra_json = dumps extra_dict
           in case (py_get ent ''id'' JNull, py_get ent ''name'' JNull, py_get ent ''type'' JNull,
                    py_get ent ''description'' (JString [])) of
                (Inr i, Inr n, Inr t, Inr d) \<Rightarrow>
                  (case upsert_entities dumps rest src sp did of
                     Inl e \<Rightarrow> Inl e
                   | Inr runs \<Rightarrow> Inr (EntityRun i n t d extra_json src sp did # runs))
              | _ \<Rightarrow> Inl AttributeError))"

fun upsert_relations :: "json list \<Rightarrow> string \<Rightarrow> error + tx_run list" where
  "upsert_relations [] src = Inr []"
| "upsert_relations (rel # rest) src =
     (case (py_get rel ''subject'' JNull, py_get rel ''predicate'' JNull,
            py_get rel ''object'' JNull, py_get rel ''description'' (JString [])) of
        (Inr s, Inr p, Inr ob, Inr d) \<Rightarrow>
          (case upsert_relations rest src of
             Inl e \<Rightarrow> Inl e
           | Inr runs \<Rightarrow> Inr (RelationRun s p ob d src # runs))
      | _ \<Rightarrow> Inl AttributeError)"

text \<open>
  The document that \<^verbatim>\<open>index_chunk\<close> posts: chunk_id, doc_id, source_file, section_path,
  text, entity_ids, vector.
\<close>

datatype 'v index_doc = IndexDoc string string string string string "json list" 'v

text \<open>
  A write to a store: one \<^verbatim>\<open>session.execute_write\<close> transaction with its \<^verbatim>\<open>tx.run\<close>
  calls, or one POST to the chunk index under the given document key.
\<close>

datatype 'v store_op =
    GraphWrite "tx_run list"
  | IndexPost string "'v index_doc"

text \<open>
  The stores are outside the program. The state kept here is the list of the writes
  performed so far; \<open>fails log w\<close> tells whether the store raises on the write \<open>w\<close> after
  the writes \<open>log\<close>. An exception leaves the program with the writes performed so far in
  place: the result is \<open>Inl\<close> of the exception and that list.
\<close>

definition perform ::
  "('v store_op list \<Rightarrow> 'v store_op \<Rightarrow> bool) \<Rightarrow> 'v store_op \<Rightarrow> 'v store_op list
     \<Rightarrow> (error \<times> 'v store_op list) + 'v store_op list" where
  "perform fails w log = (if fails log w then Inl (StoreError, log) else Inr (log @ [w]))"

text \<open>\<^verbatim>\<open>session.execute_write(f, ...)\<close>, given the outcome of the transaction function.\<close>

definition execute_write ::
  "('v store_op list \<Rightarrow> 'v store_op \<Rightarrow> bool) \<Rightarrow> error + tx_run list \<Rightarrow> 'v store_op list
     \<Rightarrow> (error \<times> 'v store_op list) + 'v store_op list" where
  "execute_write fails body log =
     (case body of Inl e \<Rightarrow> Inl (e, log) | Inr runs \<Rightarrow> perform fails (GraphWrite runs) log)"

text \<open>\<^verbatim>\<open>index_chunk\<close>; \<open>embedder t\<close> is \<^verbatim>\<open>embedder.embed([t])[0]\<close>.\<close>

definition index_chunk ::
  "('v store_op list \<Rightarrow> 'v store_op \<Rightarrow> bool) \<Rightarrow> (string \<Rightarrow> 'v) \<Rightarrow> chunk \<Rightarrow> json list
     \<Rightarrow> 'v store_op list \<Rightarrow> (error \<times> 'v store_op list) + 'v store_op list" where
  "index_chunk fails embedder c entity_ids log =
     (let vec = embedder (chunk_text c);
          doc = IndexDoc (chunk_id c) (doc_id c) (source_file c) (section_path c) (chunk_text c)
                  entity_ids vec
      in perform fails (IndexPost (chunk_id c) doc) log)"

text \<open>\<^verbatim>\<open>[e.get("id") for e in entities if e.get("id")]\<close>\<close>

fun entity_ids_of :: "json list \<Rightarrow> error + json list" where
  "entity_ids_of [] = Inr []"
| "entity_ids_of (e # rest) =
     (case py_get e ''id'' JNull of
        Inl err \<Rightarrow> Inl err
      | Inr i \<Rightarrow>
          (case entity_ids_of rest of
             Inl err \<Rightarrow> Inl err
           | Inr ids \<Rightarrow> Inr (if truthy i then i # ids else ids)))"

text \<open>
  The body of the loop over \<^verbatim>\<open>zip(chunk_batch, kg_list)\<close> (lines 101 to 124) for one
  pair.
\<close>

definition store_chunk ::
  "('v store_op list \<Rightarrow> 'v store_op \<Rightarrow> bool) \<Rightarrow> (json \<Rightarrow> string) \<Rightarrow> (string \<Rightarrow> 'v)
     \<Rightarrow> chunk \<times> kg option \<Rightarrow> 'v store_op list
     \<Rightarrow> (error \<times> 'v store_op list) + 'v store_op list" where
  "store_chunk fails dumps embedder = (\<lambda>(c, kgo) log.
     (let kg0 = (case kgo of None \<Rightarrow> empty_kg | Some k \<Rightarrow> k);
          ents = entities kg0;
          rels = relations kg0
      in case (if ents \<noteq> []
               then execute_write fails
                      (upsert_entities dumps ents (source_file c) (section_path c) (doc_id c)) log
               else Inr log) of
           Inl x \<Rightarrow> Inl x
         | Inr log1 \<Rightarrow>
             (case (if rels \<noteq> []
                    then execute_write fails (upsert_relations rels (source_file c)) log1
                    else Inr log1) of
                Inl x \<Rightarrow> Inl x
              | Inr log2 \<Rightarrow>
                  (case entity_ids_of ents of
                     Inl e \<Rightarrow> Inl (e, log2)
                   | Inr entity_ids \<Rightarrow> index_chunk fails embedder c entity_ids log2))))"

text \<open>The loop itself: an exception ends it.\<close>

fun store_batch ::
  "('v store_op list \<Rightarrow> 'v store_op \<Rightarrow> bool) \<Rightarrow> (json \<Rightarrow> string) \<Rightarrow> (string \<Rightarrow> 'v)
     \<Rightarrow> (chunk \<times> kg option) list \<Rightarrow> 'v store_op list
     \<Rightarrow> (error \<times> 'v store_op list) + 'v store_op list" where
  "store_batch fails dumps embedder [] log = Inr log"
| "store_batch fails dumps embedder (p # rest) log =
     (case store_chunk fails dumps embedder p log of
        Inl x \<Rightarrow> Inl x
      | Inr log1 \<Rightarrow> store_batch fails dumps embedder rest log1)"

text \<open>One batch of the graph mode (lines 86 to 124): dispatch, then the store writes.\<close>

definition process_batch ::
  "(nat \<Rightarrow> string \<Rightarrow> error + string option) \<Rightarrow> (string \<Rightarrow> json option) \<Rightarrow> nat list
     \<Rightarrow> ('v store_op list \<Rightarrow> 'v store_op \<Rightarrow> bool) \<Rightarrow> (json \<Rightarrow> string) \<Rightarrow> (string \<Rightarrow> 'v)
     \<Rightarrow> chunk list \<Rightarrow> 'v store_op list \<Rightarrow> (error \<times> 'v store_op list) + 'v store_op list" where
  "process_batch create loads order fails dumps embedder chunk_batch log =
     store_batch fails dumps embedder
       (zip chunk_batch (dispatch create loads order chunk_batch)) log"

text \<open>
  The writes of one chunk in the specification's words: the entity upsert when there
  are entities, the relation upsert when there are relations, and always the index
  record, whose entity_ids are the ids that are true values.
\<close>

definition is_dict :: "json \<Rightarrow> bool" where
  "is_dict v = (case v of JObject kvs \<Rightarrow> True | _ \<Rightarrow> False)"

definition dict_get :: "json \<Rightarrow> string \<Rightarrow> json \<Rightarrow> json" where
  "dict_get v key dflt =
     (case v of JObject kvs \<Rightarrow> (case map_of kvs key of Some x \<Rightarrow> x | None \<Rightarrow> dflt) | _ \<Rightarrow> dflt)"

definition entity_run :: "(json \<Rightarrow> string) \<Rightarrow> chunk \<Rightarrow> json \<Rightarrow> tx_run" where
  "entity_run dumps c ent =
     EntityRun (dict_get ent ''id'' JNull) (dict_get ent ''name'' JNull)
       (dict_get ent ''type'' JNull) (dict_get ent ''description'' (JString []))
       (dumps (if truthy (dict_get ent ''extra'' JNull) then dict_get ent ''extra'' JNull
               else JObject []))
       (source_file c) (section_path c) (doc_id c)"

definition relation_run :: "chunk \<Rightarrow> json \<Rightarrow> tx_run" where
  "relation_run c rel =
     RelationRun (dict_get rel ''subject'' JNull) (dict_get rel ''predicate'' JNull)
       (dict_get rel ''object'' JNull) (dict_get rel ''description'' (JString []))
       (source_file c)"

definition chunk_writes ::
  "(json \<Rightarrow> string) \<Rightarrow> (string \<Rightarrow> 'v) \<Rightarrow> chunk \<times> kg option \<Rightarrow> 'v store_op list" where
  "chunk_writes dumps embedder = (\<lambda>(c, kgo).
     (let kg0 = (case kgo of None \<Rightarrow> empty_kg | Some k \<Rightarrow> k)
      in (if entities kg0 \<noteq> [] then [GraphWrite (map (entity_run dumps c) (entities kg0))] else [])
       @ (if relations kg0 \<noteq> [] then [GraphWrite (map (relation_run c) (relations kg0))] else [])
       @ [IndexPost (chunk_id c)
            (IndexDoc (chunk_id c) (doc_id c) (source_file c) (section_path c) (chunk_text c)
               (filter truthy (map (\<lambda>e. dict_get e ''id'' JNull) (entities kg0)))
               (embedder (chunk_text c)))]))"

text \<open>Every extracted entity and relation is a \<^verbatim>\<open>dict\<close>, as the prompt asks.\<close>

definition kg_dicts :: "kg option \<Rightarrow> bool" where
  "kg_dicts kgo =
     (case kgo of None \<Rightarrow> True
      | Some k \<Rightarrow> list_all is_dict (entities k) \<and> list_all is_dict (relations k))"


section \<open>Window slicer: proofs\<close>

declare char_windows_loop.simps [simp del]

lemma loop_done: "\<not> i < n \<Longrightarrow> char_windows_loop i n sz ov = []"
  by (simp add: char_windows_loop.simps[of i n sz ov])

lemma loop_final: "i < n \<Longrightarrow> n \<le> i + sz \<Longrightarrow> char_windows_loop i n sz ov = [(i, n)]"
  by (simp add: char_windows_loop.simps[of i n sz ov] Let_def)

lemma loop_step:
  "0 \<le> ov \<Longrightarrow> ov < sz \<Longrightarrow> i + sz < n \<Longrightarrow>
   char_windows_loop i n sz ov = (i, i + sz) # char_windows_loop (i + sz - ov) n sz ov"
proof -
  assume a: "0 \<le> ov" "ov < sz" "i + sz < n"
  then have m: "max (i + sz - ov) (i + 1) = i + sz - ov" by simp
  from a show ?thesis
    by (simp add: char_windows_loop.simps[of i n sz ov] Let_def m)
qed

lemma loop_cases:
  assumes "0 \<le> ov" "ov < sz"
  obtains (stop) "\<not> i < n" "char_windows_loop i n sz ov = []"
  | (final) "i < n" "n \<le> i + sz" "char_windows_loop i n sz ov = [(i, n)]"
  | (step) "i + sz < n"
      "char_windows_loop i n sz ov = (i, i + sz) # char_windows_loop (i + sz - ov) n sz ov"
  using assms loop_done[of i n sz ov] loop_final[of i n sz ov] loop_step[of ov sz i n]
  by (cases "i < n"; cases "n \<le> i + sz") auto

lemma loop_induct [consumes 2, case_names stop final step]:
  assumes "0 \<le> ov" "ov < sz"
    and "\<And>i. \<not> i < n \<Longrightarrow> P i"
    and "\<And>i. i < n \<Longrightarrow> n \<le> i + sz \<Longrightarrow> P i"
    and "\<And>i. i + sz < n \<Longrightarrow> P (i + sz - ov) \<Longrightarrow> P i"
  shows "P (i::int)"
proof (induction "nat (n - i)" arbitrary: i rule: less_induct)
  case less
  show ?case
  proof (cases "i < n")
    case False
    then show ?thesis by (rule assms(3))
  next
    case True
    show ?thesis
    proof (cases "n \<le> i + sz")
      case True
      with \<open>i < n\<close> show ?thesis by (rule assms(4))
    next
      case False
      then have lt: "i + sz < n" by simp
      have "nat (n - (i + sz - ov)) < nat (n - i)"
        using assms(1,2) lt by simp
      then have "P (i + sz - ov)" by (rule less)
      with lt show ?thesis by (rule assms(5))
    qed
  qed
qed

lemma loop_bounds:
  assumes "0 \<le> ov" "ov < sz"
  shows "(a, b) \<in> set (char_windows_loop i n sz ov) \<Longrightarrow> i \<le> a \<and> a < b \<and> b \<le> n"
  using assms
proof (induction i rule: loop_induct[where n = n])
  case (stop i)
  then show ?case by (simp add: loop_done)
next
  case (final i)
  then show ?case by (simp add: loop_final)
next
  case (step i)
  from step.prems step.hyps assms show ?case
    by (auto simp: loop_step dest: step.IH)
qed

lemma loop_starts_increase:
  assumes "0 \<le> ov" "ov < sz"
  shows "sorted_wrt (<) (map fst (char_windows_loop i n sz ov))"
  using assms
proof (induction i rule: loop_induct[where n = n])
  case (stop i)
  then show ?case by (simp add: loop_done)
next
  case (final i)
  then show ?case by (simp add: loop_final)
next
  case (step i)
  have "i < a" if "(a, b) \<in> set (char_windows_loop (i + sz - ov) n sz ov)" for a b
    using loop_bounds[OF assms that] assms by simp
  with step assms show ?case
    by (auto simp: loop_step)
qed

lemma loop_cover:
  assumes "0 \<le> ov" "ov < sz"
  shows "i \<le> p \<Longrightarrow> p < n \<Longrightarrow> \<exists>(a, b) \<in> set (char_windows_loop i n sz ov). a \<le> p \<and> p < b"
  using assms
proof (induction i rule: loop_induct[where n = n])
  case (stop i)
  then show ?case by simp
next
  case (final i)
  then show ?case by (simp add: loop_final)
next
  case (step i)
  show ?case
  proof (cases "p < i + sz")
    case True
    with step assms show ?thesis by (simp add: loop_step)
  next
    case False
    with assms have "i + sz - ov \<le> p" by simp
    from step.IH[OF this step.prems(2)] step assms show ?thesis
      by (auto simp: loop_step)
  qed
qed

lemma loop_last:
  assumes "0 \<le> ov" "ov < sz"
  shows "i < n \<Longrightarrow> char_windows_loop i n sz ov \<noteq> [] \<and> snd (last (char_windows_loop i n sz ov)) = n"
  using assms
proof (induction i rule: loop_induct[where n = n])
  case (stop i)
  then show ?case by simp
next
  case (final i)
  then show ?case by (simp add: loop_final)
next
  case (step i)
  with assms have "i + sz - ov < n" by simp
  from step.IH[OF this] step assms show ?case
    by (simp add: loop_step)
qed

lemma loop_hd:
  assumes "0 \<le> ov" "ov < sz" "i < n"
  shows "fst (hd (char_windows_loop i n sz ov)) = i"
  using assms by (cases rule: loop_cases[OF assms(1,2), of i n]) auto

lemma loop_overlap:
  assumes "0 \<le> ov" "ov < sz"
  shows "Suc k < length (char_windows_loop i n sz ov) \<Longrightarrow>
         snd (char_windows_loop i n sz ov ! k) - fst (char_windows_loop i n sz ov ! Suc k) = ov
       \<and> snd (char_windows_loop i n sz ov ! k) - fst (char_windows_loop i n sz ov ! k) = sz
       \<and> snd (char_windows_loop i n sz ov ! k) < snd (char_windows_loop i n sz ov ! Suc k)"
  using assms
proof (induction i arbitrary: k rule: loop_induct[where n = n])
  case (stop i)
  then show ?case by (simp add: loop_done)
next
  case (final i)
  then show ?case by (simp add: loop_final)
next
  case (step i)
  let ?rest = "char_windows_loop (i + sz - ov) n sz ov"
  have eq: "char_windows_loop i n sz ov = (i, i + sz) # ?rest"
    using step assms by (simp add: loop_step)
  show ?case
  proof (cases k)
    case 0
    with step.prems eq have ne: "?rest \<noteq> []" by auto
    then have lt: "i + sz - ov < n" using loop_done[of "i + sz - ov" n sz ov] by fastforce
    have h: "fst (hd ?rest) = i + sz - ov" using loop_hd[OF assms lt] .
    have "hd ?rest \<in> set ?rest" using ne by simp
    then have "fst (hd ?rest) < snd (hd ?rest)"
      using loop_bounds[OF assms, of "fst (hd ?rest)" "snd (hd ?rest)" "i + sz - ov" n] by simp
    have "snd (hd ?rest) = min (i + sz - ov + sz) n"
      using lt assms by (cases rule: loop_cases[OF assms, of "i + sz - ov" n]) auto
    with 0 eq ne h assms step.hyps show ?thesis by (auto simp: hd_conv_nth)
  next
    case (Suc k')
    with step.prems eq have "Suc k' < length ?rest" by simp
    from step.IH[OF this] Suc eq show ?thesis by simp
  qed
qed

lemma loop_2000: "char_windows_loop 0 2000 800 120 = [(0, 800), (680, 1480), (1360, 2000)]"
  by (simp add: loop_step loop_final)

lemma overlap_card:
  fixes a b a' b' :: int
  assumes "a \<le> a'" "b \<le> b'"
  shows "card {p. a \<le> p \<and> p < b \<and> a' \<le> p \<and> p < b'} = nat (b - a')"
proof -
  have "{p. a \<le> p \<and> p < b \<and> a' \<le> p \<and> p < b'} = {a'..<b}"
    using assms by auto
  then show ?thesis by simp
qed

text \<open>
  Claim C2. For every text \<open>s\<close>, window size \<open>sz > 0\<close> and overlap \<open>0 \<le> ov < sz\<close> the
  slicer returns (it is a total function and the assertion passes) a list of windows such
  that: every character position of \<open>s\<close> lies in some window; the window starts strictly
  increase; every window starts before \<open>len(s)\<close>, is non-empty and ends at most at
  \<open>len(s)\<close>; when \<open>s\<close> is non-empty the last window ends exactly at \<open>len(s)\<close>; every two
  consecutive windows share exactly \<open>ov\<close> character positions (the earlier one has the
  full size \<open>sz\<close>, so no pair is an exception). On a text of 2000 characters with size
  800 and overlap 120 the windows are (0, 800), (680, 1480), (1360, 2000).
\<close>

theorem char_windows_laws:
  assumes "0 < sz" "0 \<le> ov" "ov < sz"
  shows "\<exists>ws. char_windows s sz ov = Inr ws
    \<and> (\<forall>p. 0 \<le> p \<and> p < int (length s) \<longrightarrow> (\<exists>(a, b) \<in> set ws. a \<le> p \<and> p < b))
    \<and> sorted_wrt (<) (map fst ws)
    \<and> (\<forall>(a, b) \<in> set ws. 0 \<le> a \<and> a < int (length s) \<and> a < b \<and> b \<le> int (length s))
    \<and> (s \<noteq> [] \<longrightarrow> ws \<noteq> [] \<and> snd (last ws) = int (length s))
    \<and> (\<forall>k. Suc k < length ws \<longrightarrow>
          snd (ws ! k) - fst (ws ! k) = sz
        \<and> snd (ws ! k) - fst (ws ! Suc k) = ov
        \<and> card {p. fst (ws ! k) \<le> p \<and> p < snd (ws ! k)
                  \<and> fst (ws ! Suc k) \<le> p \<and> p < snd (ws ! Suc k)} = nat ov)
    \<and> (length s = 2000 \<longrightarrow>
          char_windows s 800 120 = Inr [(0, 800), (680, 1480), (1360, 2000)])"
proof -
  let ?n = "int (length s)"
  let ?ws = "char_windows_loop 0 ?n sz ov"
  have run: "char_windows s sz ov = Inr ?ws"
    using assms by (simp add: char_windows_def)
  have cover: "\<forall>p. 0 \<le> p \<and> p < ?n \<longrightarrow> (\<exists>(a, b) \<in> set ?ws. a \<le> p \<and> p < b)"
    using loop_cover[OF assms(2,3)] by blast
  have incr: "sorted_wrt (<) (map fst ?ws)"
    by (rule loop_starts_increase[OF assms(2,3)])
  have bnd: "\<forall>(a, b) \<in> set ?ws. 0 \<le> a \<and> a < ?n \<and> a < b \<and> b \<le> ?n"
    using loop_bounds[OF assms(2,3), of _ _ 0 ?n] by fastforce
  have lst: "s \<noteq> [] \<longrightarrow> ?ws \<noteq> [] \<and> snd (last ?ws) = ?n"
    using loop_last[OF assms(2,3), of 0 ?n] by simp
  have ovl: "\<forall>k. Suc k < length ?ws \<longrightarrow>
          snd (?ws ! k) - fst (?ws ! k) = sz
        \<and> snd (?ws ! k) - fst (?ws ! Suc k) = ov
        \<and> card {p. fst (?ws ! k) \<le> p \<and> p < snd (?ws ! k)
                  \<and> fst (?ws ! Suc k) \<le> p \<and> p < snd (?ws ! Suc k)} = nat ov"
  proof (intro allI impI)
    fix k
    assume k: "Suc k < length ?ws"
    note o = loop_overlap[OF assms(2,3) k]
    have le1: "fst (?ws ! k) \<le> fst (?ws ! Suc k)"
      using o assms by linarith
    have le2: "snd (?ws ! k) \<le> snd (?ws ! Suc k)"
      using o by linarith
    show "snd (?ws ! k) - fst (?ws ! k) = sz
        \<and> snd (?ws ! k) - fst (?ws ! Suc k) = ov
        \<and> card {p. fst (?ws ! k) \<le> p \<and> p < snd (?ws ! k)
                  \<and> fst (?ws ! Suc k) \<le> p \<and> p < snd (?ws ! Suc k)} = nat ov"
      using o overlap_card[OF le1 le2] by simp
  qed
  have inst: "length s = 2000 \<longrightarrow>
          char_windows s 800 120 = Inr [(0, 800), (680, 1480), (1360, 2000)]"
    by (simp add: char_windows_def loop_2000)
  from run cover incr bnd lst ovl inst show ?thesis by blast
qed

theorem char_windows_laws_witness:
  "\<exists>ws. char_windows ''abcdefg'' 3 1 = Inr ws
     \<and> ws = [(0, 3), (2, 5), (4, 7)]
     \<and> sorted_wrt (<) (map fst ws)
     \<and> snd (last ws) = 7
     \<and> snd (ws ! 0) - fst (ws ! 1) = 1
     \<and> card {p. fst (ws ! 0) \<le> p \<and> p < snd (ws ! 0)
                  \<and> fst (ws ! 1) \<le> p \<and> p < snd (ws ! 1)} = nat 1"
proof -
  have h: "(0::int) < 3" "(0::int) \<le> 1" "(1::int) < 3" by simp_all
  have e: "char_windows ''abcdefg'' 3 1 = Inr [(0, 3), (2, 5), (4, 7)]"
    by (simp add: char_windows_def loop_step loop_final)
  from char_windows_laws[OF h, of "''abcdefg''"] e show ?thesis
    by auto
qed

text \<open>
  Claim C9 (as amended). A non-empty text strictly shorter than the window size yields
  exactly one window, from offset 0 to \<open>len(text)\<close>; the empty text yields no window at
  all, because the loop guard \<^verbatim>\<open>i < n\<close> fails at once.
\<close>

theorem char_windows_short:
  assumes "0 \<le> ov" "ov < sz" "int (length s) < sz"
  shows "char_windows s sz ov = Inr (if s = [] then [] else [(0, int (length s))])"
  using assms by (simp add: char_windows_def loop_done loop_final)

theorem char_windows_short_witness:
  "char_windows ''abc'' 800 120 = Inr [(0, 3)] \<and> char_windows [] 800 120 = Inr []"
proof -
  have h: "(0::int) \<le> 120" "(120::int) < 800" by simp_all
  have "int (length ''abc'') < 800" by simp
  from char_windows_short[OF h this] char_windows_short[OF h, of "[]"]
  show ?thesis by simp
qed

text \<open>
  Claim C9 as stated fails on the empty text: it is shorter than any window size, and the
  slicer returns no window instead of the single window (0, 0).
\<close>

theorem char_windows_empty_counterexample:
  "int (length ([] :: string)) < 800
   \<and> char_windows [] 800 120 = Inr []
   \<and> char_windows [] 800 120 \<noteq> Inr [(0, int (length ([] :: string)))]"
  by (simp add: char_windows_def loop_done)

section \<open>Section splitter: proofs\<close>

lemma splitlines_from_Nil: "splitlines_from cur s = [] \<longleftrightarrow> cur = [] \<and> s = []"
  by (induction cur s rule: splitlines_from.induct) auto

lemma splitlines_Nil: "splitlines md = [] \<longleftrightarrow> md = []"
  by (simp add: splitlines_def splitlines_from_Nil)

lemma loop_no_heading:
  "\<forall>ln \<in> set lines. h_re_match ln = None \<Longrightarrow>
   split_sections_loop lines sections path buf = flush path (buf @ lines) sections"
  by (induction lines arbitrary: buf) auto

lemma section_path_of_Nil: "section_path_of [] = ''(root)''"
  by (simp add: section_path_of_def)

lemma loop_length:
  "length (split_sections_loop lines sections path buf) =
     length sections + length (filter (\<lambda>ln. h_re_match ln \<noteq> None) lines)
     + (if buf \<noteq> [] \<or> (lines \<noteq> [] \<and> h_re_match (hd lines) = None) then 1 else 0)"
proof (induction lines arbitrary: sections path buf)
  case Nil
  then show ?case by (simp add: flush_def)
next
  case (Cons ln lines)
  show ?case
  proof (cases "h_re_match ln")
    case None
    then show ?thesis by (simp add: Cons.IH)
  next
    case (Some a)
    then show ?thesis by (cases a) (simp add: Cons.IH flush_def)
  qed
qed

lemma is_space_examples:
  "is_space (CHR 0x0A)" "is_space (CHR '' '')" "\<not> is_space (CHR ''#'')"
  "\<not> is_space (CHR ''a'')" "\<not> is_space (CHR ''b'')" "\<not> is_space (CHR ''c'')"
  "\<not> is_space (CHR ''A'')" "\<not> is_space (CHR ''x'')" "\<not> is_space (CHR ''y'')"
  by (simp_all add: is_space_def)

text \<open>
  Claim C8 (as amended). A document text with no heading line yields no section when it
  is empty, and otherwise exactly one section: its path is the root sentinel and its
  text is the document's lines joined by line feeds, trimmed, with one line feed
  appended. In general every heading line opens a section that is emitted, and the
  lines before the first heading are emitted as a root section whenever there is at
  least one such line: the number of sections is the number of heading lines, plus one
  when the document is non-empty and its first line is not a heading.
\<close>

theorem split_sections_shape:
  "((\<forall>ln \<in> set (splitlines md). h_re_match ln = None) \<longrightarrow>
      split_sections md =
        (if md = [] then [] else [(''(root)'', strip (join NL (splitlines md)) @ NL)]))
   \<and> length (split_sections md) =
        length (filter (\<lambda>ln. h_re_match ln \<noteq> None) (splitlines md))
        + (if md \<noteq> [] \<and> h_re_match (hd (splitlines md)) = None then 1 else 0)"
proof -
  have a: "split_sections md =
        (if md = [] then [] else [(''(root)'', strip (join NL (splitlines md)) @ NL)])"
    if "\<forall>ln \<in> set (splitlines md). h_re_match ln = None"
    using loop_no_heading[OF that, of "[]" "[]" "[]"] splitlines_Nil[of md]
    by (simp add: split_sections_def flush_def section_path_of_Nil)
  have b: "length (split_sections md) =
        length (filter (\<lambda>ln. h_re_match ln \<noteq> None) (splitlines md))
        + (if md \<noteq> [] \<and> h_re_match (hd (splitlines md)) = None then 1 else 0)"
    using loop_length[of "splitlines md" "[]" "[]" "[]"] splitlines_Nil[of md]
    by (simp add: split_sections_def)
  from a b show ?thesis by blast
qed

theorem split_sections_shape_witness:
  "split_sections (''  ab'' @ NL @ ''c'' @ NL) = [(''(root)'', ''ab'' @ NL @ ''c'' @ NL)]
   \<and> length (split_sections (''  ab'' @ NL @ ''c'' @ NL)) = 1"
proof -
  have l: "splitlines (''  ab'' @ NL @ ''c'' @ NL) = [''  ab'', ''c'']"
    by (simp add: splitlines_def is_linebreak_def)
  have h: "\<forall>ln \<in> set (splitlines (''  ab'' @ NL @ ''c'' @ NL)). h_re_match ln = None"
    unfolding l by (simp add: h_re_match_def)
  have s: "strip (join NL [''  ab'', ''c'']) = ''ab'' @ NL @ ''c''"
    by (simp add: strip_def is_space_examples)
  from split_sections_shape[of "''  ab'' @ NL @ ''c'' @ NL"] h l s show ?thesis
    by simp
qed

text \<open>
  Claim C8 as stated fails in three ways: the empty document has no heading line and
  yields no section; the text of the single section of \<^verbatim>\<open>abc\<close> is \<^verbatim>\<open>abc\<close> followed by
  a line feed, not the document itself; and the root section closed by the heading of
  a document that starts with an empty line is emitted although it is empty after
  trimming.
\<close>

theorem split_sections_counterexample:
  "splitlines [] = [] \<and> split_sections [] = []
   \<and> split_sections ''abc'' = [(''(root)'', ''abc'' @ NL)] \<and> ''abc'' @ NL \<noteq> ''abc''
   \<and> split_sections (NL @ ''# A'') = [(''(root)'', NL), (''A'', ''# A'' @ NL)]
   \<and> strip NL = []"
  by (simp add: split_sections_def splitlines_def is_linebreak_def h_re_match_def flush_def
      section_path_of_def strip_def is_space_examples)

section \<open>Identity scheme and chunker: proofs\<close>

declare str_nat.simps [simp del]

declare sha1_blocks.simps [simp del]

lemma sha1_schedule_numeral:
  "sha1_schedule (numeral k) rs =
     sha1_schedule (pred_numeral k) (rotl 1 (rs ! 2 XOR rs ! 7 XOR rs ! 13 XOR rs ! 15) # rs)"
  by (simp add: numeral_eq_Suc)

lemma replicate_numeral_unfold: "replicate (numeral k) x = x # replicate (pred_numeral k) x"
  by (simp add: numeral_eq_Suc)

lemmas sha1_eval =
  hash_id_def py_slice_def slice_bound_def utf8_encode_def utf8_char_def
  sha1_hex_def sha1_pad_def be_bytes8_def replicate_numeral_unfold sha1_blocks.simps
  sha1_schedule_numeral rotl_def sha1_f_def sha1_k_def add32_def hex_word_def hex_digit_def

text \<open>The test vector of FIPS 180 for the message \<^verbatim>\<open>abc\<close>.\<close>

lemma sha1_hex_abc: "sha1_hex (utf8_encode ''abc'') = ''a9993e364706816aba3e25717850c26c9cd0d89d''"
  by (simp add: sha1_eval)

lemma hash_doc_a: "hash_id [''a.md''] 16 = ''5d48a79a3e66a0b6''"
  by (simp add: sha1_eval)

lemma hash_chunk_0: "hash_id [''5d48a79a3e66a0b6'', ''A'', ''0''] 16 = ''23ef7001324c8125''"
  by (simp add: sha1_eval)

lemma hash_chunk_1: "hash_id [''5d48a79a3e66a0b6'', ''A'', ''1''] 16 = ''98bb0939443cbc30''"
  by (simp add: sha1_eval)

lemma str_nat_digits:
  "str_nat 0 = ''0''" "str_nat (Suc 0) = ''1''" "str_nat 1 = ''1''" "str_nat 2 = ''2''"
  "str_nat 3 = ''3''" "str_nat 12 = ''12''"
  "str_nat (Suc (Suc 0)) = ''2''" "str_nat (Suc (Suc (Suc 0))) = ''3''"
  by (simp_all add: str_nat.simps digit_char_def)

lemma is_linebreak_examples:
  "is_linebreak (CHR 0x0A)" "\<not> is_linebreak (CHR '' '')" "\<not> is_linebreak (CHR ''#'')"
  "\<not> is_linebreak (CHR ''A'')" "\<not> is_linebreak (CHR ''x'')" "\<not> is_linebreak (CHR ''y'')"
  "\<not> is_linebreak (CHR ''z'')"
  by (simp_all add: is_linebreak_def)

lemma doc_key_url:
  "doc_key_of (''# A'' @ NL @ ''>  sOURCE: http://x/y z'' @ NL @ ''x'') ''a.md'' = ''http://x/y''"
  by (simp add: doc_key_of_def title_url_def source_re_at_def ascii_lower_def is_space_def strip_def)

lemma doc_key_plain:
  "doc_key_of (''# A'' @ NL @ ''x'' @ NL @ ''# A'' @ NL @ ''y'') ''a.md'' = ''a.md''"
  by (simp add: doc_key_of_def title_url_def source_re_at_def)

lemma sections_two:
  "split_sections (''# A'' @ NL @ ''x'' @ NL @ ''# A'' @ NL @ ''y'') =
     [(''A'', ''# A'' @ NL @ ''x'' @ NL), (''A'', ''# A'' @ NL @ ''y'' @ NL)]"
  by (simp add: split_sections_def splitlines_def is_linebreak_examples h_re_match_def flush_def
      section_path_of_def strip_def is_space_examples)

lemma chunk_windows_eq:
  "chunk_windows did src p t wins (chunks, idx) =
     (let ps = filter (\<lambda>(p, piece). piece \<noteq> []) (map (\<lambda>(ws, we). (p, strip (py_slice t ws we))) wins)
      in (chunks @ map (mk_chunk did src) (enumerate idx ps), idx + length ps))"
proof (induction wins arbitrary: chunks idx)
  case Nil
  then show ?case by simp
next
  case (Cons w wins)
  obtain ws we where w: "w = (ws, we)" by (cases w)
  show ?case
    by (simp add: w Cons.IH Let_def mk_chunk_def)
qed

lemma chunk_sections_eq:
  assumes "0 \<le> over self" "over self < size_chars self"
  shows "chunk_sections self did src secs (chunks, idx) =
     Inr (chunks @ map (mk_chunk did src)
            (enumerate idx (filter (\<lambda>(p, piece). piece \<noteq> [])
               (concat (map (section_pieces self) secs)))))"
proof (induction secs arbitrary: chunks idx)
  case Nil
  then show ?case by simp
next
  case (Cons s secs)
  obtain p t where s: "s = (p, t)" by (cases s)
  have cw: "char_windows t (size_chars self) (over self) =
              Inr (char_windows_loop 0 (int (length t)) (size_chars self) (over self))"
    using assms by (simp add: char_windows_def)
  show ?case
    by (simp add: s cw chunk_windows_eq Let_def Cons.IH section_pieces_def enumerate_append_eq)
qed

lemma chunk_sections_invalid:
  assumes "\<not> (0 \<le> over self \<and> over self < size_chars self)"
  shows "chunk_sections self did src secs (chunks, idx) =
           (if secs = [] then Inr chunks else Inl AssertionError)"
proof (cases secs)
  case Nil
  then show ?thesis by simp
next
  case (Cons s rest)
  obtain p t where s: "s = (p, t)" by (cases s)
  have "char_windows t (size_chars self) (over self) = Inl AssertionError"
    using assms by (auto simp: char_windows_def)
  then show ?thesis by (simp add: Cons s)
qed

lemma chunk_at:
  assumes "chunk_markdown_text self md src = Inr cs" "k < length cs"
  shows "chunk_id (cs ! k) = hash_id [doc_id (cs ! k), section_path (cs ! k), str_nat k] 16
         \<and> chunk_text (cs ! k) \<noteq> []"
proof (cases "0 \<le> over self \<and> over self < size_chars self")
  case True
  then have v: "0 \<le> over self" "over self < size_chars self" by simp_all
  let ?ps = "emitted_pieces self md"
  let ?d = "hash_id [doc_key_of md src] 16"
  from chunk_sections_eq[OF v, of ?d src "split_sections md" "[]" 0] assms(1)
  have cs: "cs = map (mk_chunk ?d src) (enumerate 0 ?ps)"
    by (simp add: chunk_markdown_text_def emitted_pieces_def)
  with assms(2) have k: "k < length ?ps" by simp
  have ne: "snd (?ps ! k) \<noteq> []"
    using nth_mem[OF k] by (auto simp: emitted_pieces_def)
  show ?thesis
    using k ne by (simp add: cs mk_chunk_def nth_enumerate_eq split_beta)
next
  case False
  then have "chunk_markdown_text self md src =
               (if split_sections md = [] then Inr [] else Inl AssertionError)"
    by (simp add: chunk_markdown_text_def chunk_sections_invalid)
  with assms(1) have "cs = []" by (simp split: if_splits)
  with assms(2) show ?thesis by simp
qed

lemma is_space_examples_more:
  "\<not> is_space (CHR ''z'')" "\<not> is_space (CHR ''>'')"
  by (simp_all add: is_space_def)

text \<open>
  Claim C3. For a chunker with a valid size and overlap, \<^verbatim>\<open>chunk_markdown_text\<close> returns
  exactly the list that the document text and the source path determine as follows: the
  trimmed window slices of all sections in document order, without the slices that are
  empty after trimming, numbered 0, 1, 2, ... across the whole document; the chunk at
  position \<open>i\<close> has the id \<^verbatim>\<open>_hash_id(doc_id, section_path, str(i))\<close>. The result is a
  function of the text and the path, so two runs agree on ids, section paths and texts;
  an empty slice takes no index.
\<close>

theorem chunk_markdown_text_spec:
  assumes "0 \<le> over self" "over self < size_chars self"
  shows "chunk_markdown_text self md src =
     Inr (map (\<lambda>(i, p, piece).
                 \<lparr>chunk_id = hash_id [hash_id [doc_key_of md src] 16, p, str_nat i] 16,
                  doc_id = hash_id [doc_key_of md src] 16,
                  chunk_text = piece,
                  source_file = src,
                  section_path = p\<rparr>)
            (enumerate 0 (emitted_pieces self md)))"
  using chunk_sections_eq[OF assms, of "hash_id [doc_key_of md src] 16" src "split_sections md" "[]" 0]
  by (simp add: chunk_markdown_text_def emitted_pieces_def mk_chunk_def)

theorem chunk_markdown_text_spec_witness:
  "chunk_markdown_text \<lparr>size_chars = 4, over = 1, max_h = 6\<rparr>
     (''# A'' @ NL @ ''x       y'') ''a.md'' =
   Inr [\<lparr>chunk_id = hash_id [hash_id [''a.md''] 16, ''A'', ''0''] 16,
         doc_id = hash_id [''a.md''] 16, chunk_text = ''# A'',
         source_file = ''a.md'', section_path = ''A''\<rparr>,
        \<lparr>chunk_id = hash_id [hash_id [''a.md''] 16, ''A'', ''1''] 16,
         doc_id = hash_id [''a.md''] 16, chunk_text = ''x'',
         source_file = ''a.md'', section_path = ''A''\<rparr>,
        \<lparr>chunk_id = hash_id [hash_id [''a.md''] 16, ''A'', ''2''] 16,
         doc_id = hash_id [''a.md''] 16, chunk_text = ''y'',
         source_file = ''a.md'', section_path = ''A''\<rparr>,
        \<lparr>chunk_id = hash_id [hash_id [''a.md''] 16, ''A'', ''3''] 16,
         doc_id = hash_id [''a.md''] 16, chunk_text = ''y'',
         source_file = ''a.md'', section_path = ''A''\<rparr>]"
proof -
  let ?self = "\<lparr>size_chars = 4, over = 1, max_h = 6\<rparr>"
  let ?md = "''# A'' @ NL @ ''x       y''"
  have v: "0 \<le> over ?self" "over ?self < size_chars ?self" by simp_all
  have secs: "split_sections ?md = [(''A'', ''# A'' @ NL @ ''x       y'' @ NL)]"
    by (simp add: split_sections_def splitlines_def is_linebreak_examples h_re_match_def
        flush_def section_path_of_def strip_def is_space_examples)
  have wins: "char_windows_loop 0 14 4 1 = [(0, 4), (3, 7), (6, 10), (9, 13), (12, 14)]"
    by (simp add: loop_step loop_final)
  have ps: "emitted_pieces ?self ?md = [(''A'', ''# A''), (''A'', ''x''), (''A'', ''y''), (''A'', ''y'')]"
    unfolding emitted_pieces_def secs
    by (simp add: section_pieces_def wins py_slice_def slice_bound_def strip_def is_space_examples)
  have key: "doc_key_of ?md ''a.md'' = ''a.md''"
    by (simp add: doc_key_of_def title_url_def source_re_at_def)
  show ?thesis
    unfolding chunk_markdown_text_spec[OF v] ps key
    by (simp add: str_nat_digits)
qed

text \<open>
  Claim C4 (as amended). A chunk's id is a function of its doc id, its section path and
  its position in the chunk sequence of the whole document: two chunks, of the same or
  of different runs, that stand at the same position of their documents' chunk sequences
  and agree on doc id and section path have the same chunk id.
\<close>

theorem chunk_id_function_of_position:
  assumes "chunk_markdown_text self md src = Inr cs"
    and "chunk_markdown_text self' md' src' = Inr cs'"
    and "k < length cs" and "k < length cs'"
    and "doc_id (cs ! k) = doc_id (cs' ! k)"
    and "section_path (cs ! k) = section_path (cs' ! k)"
  shows "chunk_id (cs ! k) = chunk_id (cs' ! k)"
  using chunk_at[OF assms(1,3)] chunk_at[OF assms(2,4)] assms(5,6) by simp

theorem chunk_id_function_of_position_witness:
  "\<exists>cs cs'.
     chunk_markdown_text \<lparr>size_chars = 800, over = 120, max_h = 6\<rparr> (''# A'' @ NL @ ''x'') ''a.md'' = Inr cs
   \<and> chunk_markdown_text \<lparr>size_chars = 800, over = 120, max_h = 6\<rparr> (''# A'' @ NL @ ''z'') ''a.md'' = Inr cs'
   \<and> 0 < length cs \<and> 0 < length cs'
   \<and> chunk_text (cs ! 0) \<noteq> chunk_text (cs' ! 0)
   \<and> chunk_id (cs ! 0) = chunk_id (cs' ! 0)"
proof -
  let ?self = "\<lparr>size_chars = 800, over = 120, max_h = 6\<rparr>"
  let ?d = "hash_id [''a.md''] 16"
  let ?c = "\<lambda>t. \<lparr>chunk_id = hash_id [?d, ''A'', ''0''] 16, doc_id = ?d, chunk_text = t,
                  source_file = ''a.md'', section_path = ''A''\<rparr>"
  have e1: "chunk_markdown_text ?self (''# A'' @ NL @ ''x'') ''a.md'' = Inr [?c (''# A'' @ NL @ ''x'')]"
    by (simp add: chunk_markdown_text_def Let_def doc_key_of_def title_url_def source_re_at_def
        split_sections_def splitlines_def is_linebreak_examples h_re_match_def
        flush_def section_path_of_def strip_def is_space_examples char_windows_def loop_final
        py_slice_def slice_bound_def str_nat_digits)
  have e2: "chunk_markdown_text ?self (''# A'' @ NL @ ''z'') ''a.md'' = Inr [?c (''# A'' @ NL @ ''z'')]"
    by (simp add: chunk_markdown_text_def Let_def doc_key_of_def title_url_def source_re_at_def
        split_sections_def splitlines_def is_linebreak_examples h_re_match_def
        flush_def section_path_of_def strip_def is_space_examples is_space_examples_more
        char_windows_def loop_final py_slice_def slice_bound_def str_nat_digits)
  have h: "chunk_id ([?c (''# A'' @ NL @ ''x'')] ! 0) = chunk_id ([?c (''# A'' @ NL @ ''z'')] ! 0)"
    by (rule chunk_id_function_of_position[OF e1 e2]) simp_all
  show ?thesis
    by (rule exI[of _ "[?c (''# A'' @ NL @ ''x'')]"], rule exI[of _ "[?c (''# A'' @ NL @ ''z'')]"])
       (use e1 e2 h in simp)
qed

text \<open>
  Claim C4 as stated fails: in the document below both sections have the path \<^verbatim>\<open>A\<close> and
  one window each, so each of the two chunks is the first chunk of its own section; they
  agree on doc id and section path, yet their ids differ, because the second chunk is
  hashed with the document-wide index 1.
\<close>

theorem chunk_id_per_section_counterexample:
"split_sections (''# A'' @ NL @ ''x'' @ NL @ ''# A'' @ NL @ ''y'') =
     [(''A'', ''# A'' @ NL @ ''x'' @ NL), (''A'', ''# A'' @ NL @ ''y'' @ NL)]
   \<and> char_windows (''# A'' @ NL @ ''x'' @ NL) 800 120 = Inr [(0, 6)]
   \<and> char_windows (''# A'' @ NL @ ''y'' @ NL) 800 120 = Inr [(0, 6)]
   \<and> chunk_markdown_text \<lparr>size_chars = 800, over = 120, max_h = 6\<rparr>
        (''# A'' @ NL @ ''x'' @ NL @ ''# A'' @ NL @ ''y'') ''a.md'' =
      Inr [\<lparr>chunk_id = ''23ef7001324c8125'', doc_id = ''5d48a79a3e66a0b6'',
            chunk_text = ''# A'' @ NL @ ''x'', source_file = ''a.md'', section_path = ''A''\<rparr>,
           \<lparr>chunk_id = ''98bb0939443cbc30'', doc_id = ''5d48a79a3e66a0b6'',
            chunk_text = ''# A'' @ NL @ ''y'', source_file = ''a.md'', section_path = ''A''\<rparr>]
   \<and> ''23ef7001324c8125'' \<noteq> ''98bb0939443cbc30''"
  by (simp add: chunk_markdown_text_def Let_def sections_two[simplified] doc_key_plain[simplified]
      hash_doc_a char_windows_def loop_final
      py_slice_def slice_bound_def strip_def is_space_examples str_nat_digits
      hash_chunk_0 hash_chunk_1)

section \<open>Extractor response: proofs\<close>

text \<open>
  Claim C7. The three stages are as claimed (strict parse, then the block from the first
  opening to the last closing brace, then the empty result), and a missing or non-list
  field becomes the empty list. The function does not always return, though: when the
  content parses to a JSON value that is not an object (an array, a string, a number,
  \<^verbatim>\<open>true\<close>, \<^verbatim>\<open>false\<close> or \<^verbatim>\<open>null\<close>), \<^verbatim>\<open>parsed.get\<close> raises \<^verbatim>\<open>AttributeError\<close>, which the
  function does not catch.
\<close>

theorem extract_non_object_raises:
  assumes "create ctext = Inr (Some content)"
    and "loads (strip content) = Some v" and "\<not> is_dict v"
  shows "extract_kg_from_chunk create loads ctext = Inl AttributeError"
  using assms
  by (cases v) (simp_all add: extract_kg_from_chunk_def parse_content_def kg_of_parsed_def
      py_get_def is_dict_def)

theorem extract_non_object_raises_witness:
  "extract_kg_from_chunk (\<lambda>t. Inr (Some ''[]''))
     (\<lambda>s. if s = ''[]'' then Some (JArray []) else None) ''some text'' = Inl AttributeError"
  using extract_non_object_raises[where create = "\<lambda>t. Inr (Some ''[]'')"
      and loads = "\<lambda>s. if s = ''[]'' then Some (JArray []) else None"
      and ctext = "''some text''" and content = "''[]''" and v = "JArray []"]
  by (simp add: strip_def is_space_def is_dict_def)

section \<open>Extraction dispatch: proofs\<close>

lemma collect_results_length: "length (collect_results fs kgl) = length kgl"
  by (induction fs arbitrary: kgl) auto

lemma collect_results_miss:
  "i \<notin> snd ` set fs \<Longrightarrow> collect_results fs kgl ! i = kgl ! i"
  by (induction fs arbitrary: kgl) (auto simp: nth_list_update)

lemma collect_results_hit:
  "distinct (map snd fs) \<Longrightarrow> (out, i) \<in> set fs \<Longrightarrow> i < length kgl \<Longrightarrow>
   collect_results fs kgl ! i = Some (case out of Inr r \<Rightarrow> r | Inl e \<Rightarrow> empty_kg)"
proof (induction fs arbitrary: kgl)
  case Nil
  then show ?case by simp
next
  case (Cons f fs)
  obtain o' j where f: "f = (o', j)" by (cases f)
  show ?case
  proof (cases "(out, i) = f")
    case True
    with Cons.prems f have "i \<notin> snd ` set fs" by auto
    from collect_results_miss[OF this] True f Cons.prems(3) show ?thesis by simp
  next
    case False
    with Cons.prems have "(out, i) \<in> set fs" by simp
    moreover from Cons.prems(1) have "distinct (map snd fs)" by simp
    ultimately show ?thesis using Cons.IH Cons.prems(3) f by simp
  qed
qed

lemma submit_all_nth:
  "p < length chunk_batch \<Longrightarrow>
   submit_all create loads chunk_batch ! p =
     (extract_kg_from_chunk (create p) loads (chunk_text (chunk_batch ! p)), p)"
  by (simp add: submit_all_def nth_enumerate_eq)

lemma dispatch_nth:
  assumes "distinct order" "set order = {0..<length chunk_batch}" "i < length chunk_batch"
  shows "dispatch create loads order chunk_batch ! i =
     Some (case extract_kg_from_chunk (create i) loads (chunk_text (chunk_batch ! i)) of
             Inr r \<Rightarrow> r | Inl e \<Rightarrow> empty_kg)"
proof -
  let ?futures = "submit_all create loads chunk_batch"
  let ?fs = "map (\<lambda>p. ?futures ! p) order"
  have snd_fs: "map snd ?fs = order"
    using assms(2) by (auto simp: submit_all_nth intro: map_idI)
  have "i \<in> set order" using assms(2,3) by simp
  then have "?futures ! i \<in> set ?fs" by simp
  then have mem: "(extract_kg_from_chunk (create i) loads (chunk_text (chunk_batch ! i)), i) \<in> set ?fs"
    using assms(3) by (simp add: submit_all_nth)
  have "distinct (map snd ?fs)" using snd_fs assms(1) by simp
  from collect_results_hit[OF this mem, of "replicate (length chunk_batch) None"] assms(3)
  show ?thesis by (simp add: dispatch_def)
qed

lemma dispatch_length: "length (dispatch create loads order chunk_batch) = length chunk_batch"
  by (simp add: dispatch_def collect_results_length)

text \<open>
  Claim C1. Whatever the order in which the extraction calls of a batch complete, the
  result list has the length of the batch and slot \<open>i\<close> holds the result of the call for
  chunk \<open>i\<close>: the value the call returned, or the empty extraction when the call raised.
  A call that raises therefore changes its own slot only.
\<close>

theorem dispatch_index_aligned:
  assumes "distinct order" "set order = {0..<length chunk_batch}"
  shows "dispatch create loads order chunk_batch =
           map (\<lambda>(i, c). Some (case extract_kg_from_chunk (create i) loads (chunk_text c) of
                                  Inr r \<Rightarrow> r | Inl e \<Rightarrow> empty_kg))
             (enumerate 0 chunk_batch)
       \<and> length (dispatch create loads order chunk_batch) = length chunk_batch
       \<and> (\<forall>i < length chunk_batch.
            (\<forall>e. extract_kg_from_chunk (create i) loads (chunk_text (chunk_batch ! i)) = Inl e \<longrightarrow>
                 dispatch create loads order chunk_batch ! i = Some \<lparr>entities = [], relations = []\<rparr>)
          \<and> (\<forall>r. extract_kg_from_chunk (create i) loads (chunk_text (chunk_batch ! i)) = Inr r \<longrightarrow>
                 dispatch create loads order chunk_batch ! i = Some r))"
proof -
  have eq: "dispatch create loads order chunk_batch =
           map (\<lambda>(i, c). Some (case extract_kg_from_chunk (create i) loads (chunk_text c) of
                                  Inr r \<Rightarrow> r | Inl e \<Rightarrow> empty_kg))
             (enumerate 0 chunk_batch)"
    by (rule nth_equalityI)
       (simp_all add: dispatch_length dispatch_nth[OF assms] nth_enumerate_eq)
  have each: "\<forall>i < length chunk_batch.
            (\<forall>e. extract_kg_from_chunk (create i) loads (chunk_text (chunk_batch ! i)) = Inl e \<longrightarrow>
                 dispatch create loads order chunk_batch ! i = Some \<lparr>entities = [], relations = []\<rparr>)
          \<and> (\<forall>r. extract_kg_from_chunk (create i) loads (chunk_text (chunk_batch ! i)) = Inr r \<longrightarrow>
                 dispatch create loads order chunk_batch ! i = Some r)"
    by (simp add: dispatch_nth[OF assms] empty_kg_def)
  from eq each dispatch_length show ?thesis by blast
qed

theorem dispatch_index_aligned_witness:
  "dispatch
     (\<lambda>i t. if i = 0 then Inl ExtractionError
            else Inr (Some (''{'' @ [CHR 0x22] @ ''entities'' @ [CHR 0x22] @ '':[1]}'')))
     (\<lambda>s. if s = ''{'' @ [CHR 0x22] @ ''entities'' @ [CHR 0x22] @ '':[1]}''
           then Some (JObject [(''entities'', JArray [JInt 1])]) else None)
     [1, 0]
     [\<lparr>chunk_id = ''k0'', doc_id = ''d'', chunk_text = ''t0'', source_file = ''f'', section_path = ''s''\<rparr>,
      \<lparr>chunk_id = ''k1'', doc_id = ''d'', chunk_text = ''t1'', source_file = ''f'', section_path = ''s''\<rparr>]
   = [Some \<lparr>entities = [], relations = []\<rparr>, Some \<lparr>entities = [JInt 1], relations = []\<rparr>]"
proof -
  let ?batch = "[\<lparr>chunk_id = ''k0'', doc_id = ''d'', chunk_text = ''t0'', source_file = ''f'', section_path = ''s''\<rparr>,
      \<lparr>chunk_id = ''k1'', doc_id = ''d'', chunk_text = ''t1'', source_file = ''f'', section_path = ''s''\<rparr>]"
  have d: "distinct [1, 0 :: nat]" by simp
  have s: "set [1, 0 :: nat] = {0..<length ?batch}" by auto
  show ?thesis
    using dispatch_index_aligned[OF d s]
    by (simp add: extract_kg_from_chunk_def parse_content_def kg_of_parsed_def py_get_def
        empty_kg_def strip_def is_space_def)
qed

section \<open>Store writes: proofs\<close>

lemma py_get_dict: "is_dict v \<Longrightarrow> py_get v key dflt = Inr (dict_get v key dflt)"
  by (cases v) (simp_all add: is_dict_def py_get_def dict_get_def)

lemma upsert_entities_dicts:
  "list_all is_dict ents \<Longrightarrow>
   upsert_entities dumps ents (source_file c) (section_path c) (doc_id c) =
     Inr (map (entity_run dumps c) ents)"
  by (induction ents) (simp_all add: py_get_dict entity_run_def Let_def)

lemma upsert_relations_dicts:
  "list_all is_dict rels \<Longrightarrow>
   upsert_relations rels (source_file c) = Inr (map (relation_run c) rels)"
  by (induction rels) (simp_all add: py_get_dict relation_run_def)

lemma entity_ids_of_dicts:
  "list_all is_dict ents \<Longrightarrow>
   entity_ids_of ents = Inr (filter truthy (map (\<lambda>e. dict_get e ''id'' JNull) ents))"
  by (induction ents) (simp_all add: py_get_dict)

lemma store_chunk_ok:
  assumes "\<forall>log w. \<not> fails log w" "kg_dicts kgo"
  shows "store_chunk fails dumps embedder (c, kgo) log =
           Inr (log @ chunk_writes dumps embedder (c, kgo))"
proof -
  define k where "k = (case kgo of None \<Rightarrow> empty_kg | Some k \<Rightarrow> k)"
  have d: "list_all is_dict (entities k)" "list_all is_dict (relations k)"
    using assms(2) by (auto simp: k_def kg_dicts_def empty_kg_def split: option.splits)
  show ?thesis
    using assms(1)
    by (simp add: store_chunk_def chunk_writes_def k_def[symmetric] Let_def execute_write_def
        perform_def index_chunk_def upsert_entities_dicts[OF d(1)] upsert_relations_dicts[OF d(2)]
        entity_ids_of_dicts[OF d(1)])
qed

lemma store_batch_ok:
  assumes "\<forall>log w. \<not> fails log w"
  shows "list_all (\<lambda>(c, kgo). kg_dicts kgo) ps \<Longrightarrow>
         store_batch fails dumps embedder ps log =
           Inr (log @ concat (map (chunk_writes dumps embedder) ps))"
proof (induction ps arbitrary: log)
  case Nil
  then show ?case by simp
next
  case (Cons p ps)
  obtain c kgo where p: "p = (c, kgo)" by (cases p)
  from Cons.prems p have "kg_dicts kgo" "list_all (\<lambda>(c, kgo). kg_dicts kgo) ps" by simp_all
  then show ?case
    by (simp add: p store_chunk_ok[OF assms] Cons.IH)
qed








lemma py_get_Inr_dict: "py_get v key dflt = Inr x \<Longrightarrow> is_dict v"
  by (cases v) (simp_all add: py_get_def is_dict_def)

lemma py_get_not_dict: "\<not> is_dict v \<Longrightarrow> py_get v key dflt = Inl AttributeError"
  by (cases v) (simp_all add: py_get_def is_dict_def)

lemma upsert_entities_not_dicts:
  "\<exists>e \<in> set ents. \<not> is_dict e \<Longrightarrow>
   upsert_entities dumps ents src sp did = Inl AttributeError"
proof (induction ents)
  case Nil
  then show ?case by simp
next
  case (Cons ent rest)
  show ?case
  proof (cases "is_dict ent")
    case False
    then show ?thesis by (simp add: py_get_not_dict)
  next
    case True
    with Cons.prems have "\<exists>e \<in> set rest. \<not> is_dict e" by simp
    from Cons.IH[OF this] True show ?thesis
      by (simp add: py_get_dict Let_def)
  qed
qed

lemma upsert_relations_not_dicts:
  "\<exists>e \<in> set rels. \<not> is_dict e \<Longrightarrow> upsert_relations rels src = Inl AttributeError"
proof (induction rels)
  case Nil
  then show ?case by simp
next
  case (Cons rel rest)
  show ?case
  proof (cases "is_dict rel")
    case False
    then show ?thesis by (simp add: py_get_not_dict)
  next
    case True
    with Cons.prems have "\<exists>e \<in> set rest. \<not> is_dict e" by simp
    from Cons.IH[OF this] True show ?thesis
      by (simp add: py_get_dict)
  qed
qed

lemma entity_ids_of_not_dicts:
  "\<exists>e \<in> set ents. \<not> is_dict e \<Longrightarrow> entity_ids_of ents = Inl AttributeError"
proof (induction ents)
  case Nil
  then show ?case by simp
next
  case (Cons ent rest)
  show ?case
  proof (cases "is_dict ent")
    case False
    then show ?thesis by (simp add: py_get_not_dict)
  next
    case True
    with Cons.prems have "\<exists>e \<in> set rest. \<not> is_dict e" by simp
    from Cons.IH[OF this] True show ?thesis
      by (simp add: py_get_dict)
  qed
qed

lemma store_chunk_not_dict:
  assumes "\<exists>e \<in> set ents. \<not> is_dict e"
  shows "store_chunk fails dumps embedder (c, Some \<lparr>entities = ents, relations = rels\<rparr>) log =
           Inl (AttributeError, log)"
proof -
  from assms have ne: "ents \<noteq> []" by auto
  show ?thesis
    by (simp add: store_chunk_def Let_def ne execute_write_def upsert_entities_not_dicts[OF assms])
qed

lemma store_chunk_Inr:
  assumes "store_chunk fails dumps embedder (c, kgo) log = Inr log'"
  shows "kg_dicts kgo \<and> log' = log @ chunk_writes dumps embedder (c, kgo)"
proof -
  define k where "k = (case kgo of None \<Rightarrow> empty_kg | Some k \<Rightarrow> k)"
  have d1: "list_all is_dict (entities k)"
  proof (rule ccontr)
    assume "\<not> list_all is_dict (entities k)"
    then have n: "\<exists>e \<in> set (entities k). \<not> is_dict e" by (simp add: list_all_iff)
    then have ne: "entities k \<noteq> []" by auto
    from assms show False
      by (simp add: store_chunk_def Let_def k_def[symmetric] ne execute_write_def
          upsert_entities_not_dicts[OF n])
  qed
  have d2: "list_all is_dict (relations k)"
  proof (rule ccontr)
    assume "\<not> list_all is_dict (relations k)"
    then have n: "\<exists>e \<in> set (relations k). \<not> is_dict e" by (simp add: list_all_iff)
    then have ne: "relations k \<noteq> []" by auto
    from assms show False
      by (simp add: store_chunk_def Let_def k_def[symmetric] ne execute_write_def
          upsert_relations_not_dicts[OF n] split: sum.splits if_splits)
  qed
  have kd: "kg_dicts kgo"
    using d1 d2 by (simp add: kg_dicts_def k_def empty_kg_def split: option.splits)
  have "log' = log @ chunk_writes dumps embedder (c, kgo)"
    using assms
    by (simp add: store_chunk_def chunk_writes_def k_def[symmetric] Let_def execute_write_def
        perform_def index_chunk_def upsert_entities_dicts[OF d1] upsert_relations_dicts[OF d2]
        entity_ids_of_dicts[OF d1] split: if_splits)
  with kd show ?thesis by simp
qed

lemma store_batch_Inr:
  "store_batch fails dumps embedder ps log = Inr log' \<Longrightarrow>
   log' = log @ concat (map (chunk_writes dumps embedder) ps)"
proof (induction ps arbitrary: log)
  case Nil
  then show ?case by simp
next
  case (Cons p ps)
  obtain c kgo where p: "p = (c, kgo)" by (cases p)
  from Cons.prems obtain log1 where
    s1: "store_chunk fails dumps embedder (c, kgo) log = Inr log1" and
    s2: "store_batch fails dumps embedder ps log1 = Inr log'"
    by (auto simp: p split: sum.splits)
  from store_chunk_Inr[OF s1] Cons.IH[OF s2] show ?case by (simp add: p)
qed

text \<open>
  Claim C5 (as amended). When every extracted entity and relation of the batch is an
  object and no store write raises, the writes of the batch are, chunk after chunk in
  batch order, the writes of \<open>chunk_writes\<close>: the entity upsert if the entity list is
  non-empty, then the relation upsert if the relation list is non-empty, then the index
  record under the chunk's id, whose entity_ids are the ids of the chunk's entities that
  are true values; for a chunk with the empty extraction this is the index record alone,
  with the empty list. Whenever the loop over a batch ends without an exception, the
  writes performed are exactly these. An extracted entity that is not an object makes
  the entity upsert raise \<^verbatim>\<open>AttributeError\<close> before any write for its chunk.
\<close>

theorem store_batch_writes:
  "((\<forall>log w. \<not> fails log w) \<and> list_all (\<lambda>(c, kgo). kg_dicts kgo) ps \<longrightarrow>
      store_batch fails dumps embedder ps log =
        Inr (log @ concat (map (chunk_writes dumps embedder) ps)))
   \<and> (store_batch fails dumps embedder ps log = Inr log' \<longrightarrow>
        log' = log @ concat (map (chunk_writes dumps embedder) ps))
   \<and> (\<forall>c. chunk_writes dumps embedder (c, Some \<lparr>entities = [], relations = []\<rparr>) =
            [IndexPost (chunk_id c)
               (IndexDoc (chunk_id c) (doc_id c) (source_file c) (section_path c)
                  (chunk_text c) [] (embedder (chunk_text c)))])
   \<and> ((\<exists>e \<in> set ents. \<not> is_dict e) \<longrightarrow>
        store_chunk fails dumps embedder (c0, Some \<lparr>entities = ents, relations = rels\<rparr>) log =
          Inl (AttributeError, log))"
proof -
  have a: "store_batch fails dumps embedder ps log =
        Inr (log @ concat (map (chunk_writes dumps embedder) ps))"
    if "\<forall>log w. \<not> fails log w" "list_all (\<lambda>(c, kgo). kg_dicts kgo) ps"
    using store_batch_ok[OF that] .
  have b: "log' = log @ concat (map (chunk_writes dumps embedder) ps)"
    if "store_batch fails dumps embedder ps log = Inr log'"
    using store_batch_Inr[OF that] .
  have c: "\<forall>c. chunk_writes dumps embedder (c, Some \<lparr>entities = [], relations = []\<rparr>) =
            [IndexPost (chunk_id c)
               (IndexDoc (chunk_id c) (doc_id c) (source_file c) (section_path c)
                  (chunk_text c) [] (embedder (chunk_text c)))]"
    by (simp add: chunk_writes_def)
  have d: "store_chunk fails dumps embedder (c0, Some \<lparr>entities = ents, relations = rels\<rparr>) log =
          Inl (AttributeError, log)"
    if "\<exists>e \<in> set ents. \<not> is_dict e"
    using store_chunk_not_dict[OF that] .
  from a b c d show ?thesis by blast
qed

theorem store_batch_writes_witness:
  "store_batch (\<lambda>log w. False) (\<lambda>j. ''{}'') length
     [(\<lparr>chunk_id = ''k0'', doc_id = ''d'', chunk_text = ''t0'', source_file = ''f'', section_path = ''s''\<rparr>,
       Some \<lparr>entities = [JObject [(''id'', JString ''e1'')]],
             relations = [JObject [(''subject'', JString ''e1'')]]\<rparr>),
      (\<lparr>chunk_id = ''k1'', doc_id = ''d'', chunk_text = ''t1'', source_file = ''f'', section_path = ''s''\<rparr>,
       Some \<lparr>entities = [], relations = []\<rparr>)]
     []
   = Inr [GraphWrite [EntityRun (JString ''e1'') JNull JNull (JString []) ''{}'' ''f'' ''s'' ''d''],
          GraphWrite [RelationRun (JString ''e1'') JNull JNull (JString []) ''f''],
          IndexPost ''k0'' (IndexDoc ''k0'' ''d'' ''f'' ''s'' ''t0'' [JString ''e1''] 2),
          IndexPost ''k1'' (IndexDoc ''k1'' ''d'' ''f'' ''s'' ''t1'' [] 2)]
   \<and> store_chunk (\<lambda>log w. False) (\<lambda>j. ''{}'') length
       (\<lparr>chunk_id = ''k0'', doc_id = ''d'', chunk_text = ''t0'', source_file = ''f'', section_path = ''s''\<rparr>,
        Some \<lparr>entities = [JString ''x''], relations = []\<rparr>) []
     = Inl (AttributeError, [])"
proof -
  let ?c0 = "\<lparr>chunk_id = ''k0'', doc_id = ''d'', chunk_text = ''t0'', source_file = ''f'', section_path = ''s''\<rparr>"
  let ?ps = "[(?c0,
       Some \<lparr>entities = [JObject [(''id'', JString ''e1'')]],
             relations = [JObject [(''subject'', JString ''e1'')]]\<rparr>),
      (\<lparr>chunk_id = ''k1'', doc_id = ''d'', chunk_text = ''t1'', source_file = ''f'', section_path = ''s''\<rparr>,
       Some \<lparr>entities = [], relations = []\<rparr>)]"
  let ?fails = "\<lambda>(log :: nat store_op list) (w :: nat store_op). False"
  note t = store_batch_writes[of ?fails ?ps "\<lambda>j. ''{}''" length "[]" _ "[JString ''x'']" ?c0 "[]"]
  have f: "\<forall>log w. \<not> ?fails log w" by simp
  have h: "list_all (\<lambda>(c, kgo). kg_dicts kgo) ?ps"
    by (simp add: kg_dicts_def is_dict_def)
  have n: "\<exists>e \<in> set [JString ''x'']. \<not> is_dict e" by (simp add: is_dict_def)
  from t f h have "store_batch ?fails (\<lambda>j. ''{}'') length ?ps [] =
          Inr ([] @ concat (map (chunk_writes (\<lambda>j. ''{}'') length) ?ps))"
    by blast
  then have 1: "store_batch ?fails (\<lambda>j. ''{}'') length ?ps []
   = Inr [GraphWrite [EntityRun (JString ''e1'') JNull JNull (JString []) ''{}'' ''f'' ''s'' ''d''],
          GraphWrite [RelationRun (JString ''e1'') JNull JNull (JString []) ''f''],
          IndexPost ''k0'' (IndexDoc ''k0'' ''d'' ''f'' ''s'' ''t0'' [JString ''e1''] 2),
          IndexPost ''k1'' (IndexDoc ''k1'' ''d'' ''f'' ''s'' ''t1'' [] 2)]"
    by (simp add: chunk_writes_def entity_run_def relation_run_def dict_get_def)
  from t n have 2: "store_chunk ?fails (\<lambda>j. ''{}'') length
       (?c0, Some \<lparr>entities = [JString ''x''], relations = []\<rparr>) [] = Inl (AttributeError, [])"
    by blast
  from 1 2 show ?thesis by (rule conjI)
qed

text \<open>
  Claim C5 as stated fails: the index record is not written unconditionally. The
  extractor lets the entity list \<^verbatim>\<open>["x"]\<close> through; its upsert raises \<^verbatim>\<open>AttributeError\<close>
  and neither that chunk nor the next one gets an index record. Likewise a failing
  entity upsert leaves its chunk without an index record.
\<close>

theorem index_record_not_unconditional_counterexample:
  "kg_of_parsed (JObject [(''entities'', JArray [JString ''x''])]) =
     Inr \<lparr>entities = [JString ''x''], relations = []\<rparr>
   \<and> store_batch (\<lambda>log w. False) (\<lambda>j. ''{}'') length
       [(\<lparr>chunk_id = ''k0'', doc_id = ''d'', chunk_text = ''t0'', source_file = ''f'', section_path = ''s''\<rparr>,
         Some \<lparr>entities = [JString ''x''], relations = []\<rparr>),
        (\<lparr>chunk_id = ''k1'', doc_id = ''d'', chunk_text = ''t1'', source_file = ''f'', section_path = ''s''\<rparr>,
         Some \<lparr>entities = [], relations = []\<rparr>)]
       []
     = Inl (AttributeError, [])
   \<and> store_batch (\<lambda>log w. case w of GraphWrite runs \<Rightarrow> True | IndexPost k d \<Rightarrow> False)
       (\<lambda>j. ''{}'') length
       [(\<lparr>chunk_id = ''k0'', doc_id = ''d'', chunk_text = ''t0'', source_file = ''f'', section_path = ''s''\<rparr>,
         Some \<lparr>entities = [JObject [(''id'', JString ''e1'')]], relations = []\<rparr>)]
       []
     = Inl (StoreError, [])"
  by (simp add: kg_of_parsed_def py_get_def store_chunk_def Let_def execute_write_def perform_def)




text \<open>
  Claim C10 (as amended). Whenever the index record of a chunk is written, every
  extracted entity is an object and was passed to the entity upsert with whatever
  \<^verbatim>\<open>ent.get("id")\<close> gives (\<^verbatim>\<open>None\<close> for an absent key), and the entity_ids of the record
  are exactly the ids that are true values, in order: an id that is absent, \<^verbatim>\<open>None\<close>, the
  empty string, 0, \<^verbatim>\<open>False\<close>, an empty list or an empty object is left out.
\<close>

theorem entity_ids_in_index_record:
  assumes "store_chunk fails dumps embedder (c, Some \<lparr>entities = ents, relations = rels\<rparr>) log =
             Inr log'"
  shows "\<exists>ids pre.
           log' = log @ pre
                    @ [IndexPost (chunk_id c)
                         (IndexDoc (chunk_id c) (doc_id c) (source_file c) (section_path c)
                            (chunk_text c) ids (embedder (chunk_text c)))]
         \<and> pre = (if ents \<noteq> [] then [GraphWrite (map (entity_run dumps c) ents)] else [])
                 @ (if rels \<noteq> [] then [GraphWrite (map (relation_run c) rels)] else [])
         \<and> ids = filter truthy (map (\<lambda>e. dict_get e ''id'' JNull) ents)
         \<and> (\<forall>v. v \<in> set ids \<longleftrightarrow> (\<exists>e \<in> set ents. dict_get e ''id'' JNull = v \<and> truthy v))
         \<and> JNull \<notin> set ids \<and> JString [] \<notin> set ids \<and> JInt 0 \<notin> set ids
         \<and> JBool False \<notin> set ids \<and> JArray [] \<notin> set ids \<and> JObject [] \<notin> set ids
         \<and> (\<forall>e \<in> set ents. is_dict e \<and> (\<exists>n t d x sf sp di.
               entity_run dumps c e = EntityRun (dict_get e ''id'' JNull) n t d x sf sp di))"
proof -
  let ?ids = "filter truthy (map (\<lambda>e. dict_get e ''id'' JNull) ents)"
  let ?pre = "(if ents \<noteq> [] then [GraphWrite (map (entity_run dumps c) ents) :: 'a store_op] else [])
                 @ (if rels \<noteq> [] then [GraphWrite (map (relation_run c) rels)] else [])"
  from store_chunk_Inr[OF assms]
  have k: "kg_dicts (Some \<lparr>entities = ents, relations = rels\<rparr>)"
    and l: "log' = log @ chunk_writes dumps embedder (c, Some \<lparr>entities = ents, relations = rels\<rparr>)"
    by simp_all
  from l have run: "log' = log @ ?pre
                    @ [IndexPost (chunk_id c)
                         (IndexDoc (chunk_id c) (doc_id c) (source_file c) (section_path c)
                            (chunk_text c) ?ids (embedder (chunk_text c)))]"
    by (simp add: chunk_writes_def)
  have m: "\<forall>v. v \<in> set ?ids \<longleftrightarrow> (\<exists>e \<in> set ents. dict_get e ''id'' JNull = v \<and> truthy v)"
    by auto
  have n: "JNull \<notin> set ?ids" "JString [] \<notin> set ?ids" "JInt 0 \<notin> set ?ids"
    "JBool False \<notin> set ?ids" "JArray [] \<notin> set ?ids" "JObject [] \<notin> set ?ids"
    by auto
  have r: "\<forall>e \<in> set ents. is_dict e \<and> (\<exists>n t d x sf sp di.
               entity_run dumps c e = EntityRun (dict_get e ''id'' JNull) n t d x sf sp di)"
    using k by (simp add: kg_dicts_def list_all_iff entity_run_def)
  from run m n r show ?thesis by blast
qed

theorem entity_ids_in_index_record_witness:
  "\<exists>ids pre.
     [GraphWrite [EntityRun (JString ''e1'') JNull JNull (JString []) ''{}'' ''f'' ''s'' ''d'',
                  EntityRun JNull (JString ''n'') JNull (JString []) ''{}'' ''f'' ''s'' ''d'',
                  EntityRun (JString []) JNull JNull (JString []) ''{}'' ''f'' ''s'' ''d'',
                  EntityRun (JInt 0) JNull JNull (JString []) ''{}'' ''f'' ''s'' ''d''],
      IndexPost ''k0'' (IndexDoc ''k0'' ''d'' ''f'' ''s'' ''t0'' [JString ''e1''] (2::nat))]
     = [] @ pre @ [IndexPost ''k0'' (IndexDoc ''k0'' ''d'' ''f'' ''s'' ''t0'' ids 2)]
   \<and> ids = [JString ''e1'']
   \<and> JNull \<notin> set ids \<and> JString [] \<notin> set ids \<and> JInt 0 \<notin> set ids"
proof -
  let ?c = "\<lparr>chunk_id = ''k0'', doc_id = ''d'', chunk_text = ''t0'', source_file = ''f'', section_path = ''s''\<rparr>"
  let ?ents = "[JObject [(''id'', JString ''e1'')], JObject [(''name'', JString ''n'')],
                JObject [(''id'', JString [])], JObject [(''id'', JInt 0)]]"
  let ?log = "[GraphWrite [EntityRun (JString ''e1'') JNull JNull (JString []) ''{}'' ''f'' ''s'' ''d'',
                  EntityRun JNull (JString ''n'') JNull (JString []) ''{}'' ''f'' ''s'' ''d'',
                  EntityRun (JString []) JNull JNull (JString []) ''{}'' ''f'' ''s'' ''d'',
                  EntityRun (JInt 0) JNull JNull (JString []) ''{}'' ''f'' ''s'' ''d''],
      IndexPost ''k0'' (IndexDoc ''k0'' ''d'' ''f'' ''s'' ''t0'' [JString ''e1''] (2::nat))]"
  have e: "store_chunk (\<lambda>log w. False) (\<lambda>j. ''{}'') length
             (?c, Some \<lparr>entities = ?ents, relations = []\<rparr>) [] = Inr ?log"
    by (simp add: store_chunk_def Let_def execute_write_def perform_def index_chunk_def py_get_def)
  from entity_ids_in_index_record[OF e] obtain ids pre where
    1: "?log = [] @ pre @ [IndexPost (chunk_id ?c)
                         (IndexDoc (chunk_id ?c) (doc_id ?c) (source_file ?c) (section_path ?c)
                            (chunk_text ?c) ids (length (chunk_text ?c)))]"
    and 2: "ids = filter truthy (map (\<lambda>e. dict_get e ''id'' JNull) ?ents)"
    and 3: "JNull \<notin> set ids" "JString [] \<notin> set ids" "JInt 0 \<notin> set ids"
    by blast
  from 2 have 4: "ids = [JString ''e1'']" by (simp add: dict_get_def)
  from 1 have 5: "?log = [] @ pre @ [IndexPost ''k0'' (IndexDoc ''k0'' ''d'' ''f'' ''s'' ''t0'' ids 2)]"
    by simp
  from 5 4 3 show ?thesis by blast
qed

text \<open>
  Claim C10 as stated fails: the id 0 is present, is not \<^verbatim>\<open>None\<close> and is not the empty
  string; it is passed to the entity upsert and yet left out of entity_ids.
\<close>

theorem entity_ids_falsy_counterexample:
  "store_chunk (\<lambda>log w. False) (\<lambda>j. ''{}'') length
     (\<lparr>chunk_id = ''k0'', doc_id = ''d'', chunk_text = ''t0'', source_file = ''f'', section_path = ''s''\<rparr>,
      Some \<lparr>entities = [JObject [(''id'', JInt 0)]], relations = []\<rparr>) []
   = Inr [GraphWrite [EntityRun (JInt 0) JNull JNull (JString []) ''{}'' ''f'' ''s'' ''d''],
          IndexPost ''k0'' (IndexDoc ''k0'' ''d'' ''f'' ''s'' ''t0'' [] 2)]
   \<and> map_of [(''id'', JInt 0)] ''id'' = Some (JInt 0)
   \<and> JInt 0 \<noteq> JNull \<and> JInt 0 \<noteq> JString []"
  by (simp add: store_chunk_def Let_def execute_write_def perform_def index_chunk_def py_get_def)

end
